theory Spec2Isabelle
  imports Complex_Main
begin

section \<open>Text\<close>

text \<open>
  The scanner (\<^verbatim>\<open>mac_scanner.py\<close>) works on Python \<^verbatim>\<open>str\<close> values: command lines,
  device output, device-list lines. They are modelled as \<^typ>\<open>string\<close>, and the character
  functions below are Python's on ASCII text, which is what the two command dialects and
  a MAC address consist of. Characters above 127 are left alone by the case functions
  and belong to no character class.
\<close>

definition ord :: "char \<Rightarrow> nat" where
  "ord c = of_char c"

text \<open>\<^verbatim>\<open>str.isspace\<close> on one ASCII character: TAB, LF, VT, FF, CR, FS, GS, RS, US, space.\<close>

definition isspace :: "char \<Rightarrow> bool" where
  "isspace c = ((9 \<le> ord c \<and> ord c \<le> 13) \<or> (28 \<le> ord c \<and> ord c \<le> 32))"

text \<open>The line boundaries of \<^verbatim>\<open>str.splitlines\<close>: LF, VT, FF, CR, FS, GS, RS.\<close>

definition islinebreak :: "char \<Rightarrow> bool" where
  "islinebreak c = ((10 \<le> ord c \<and> ord c \<le> 13) \<or> (28 \<le> ord c \<and> ord c \<le> 30))"

definition isdigit :: "char \<Rightarrow> bool" where
  "isdigit c = (48 \<le> ord c \<and> ord c \<le> 57)"

definition isupper :: "char \<Rightarrow> bool" where
  "isupper c = (65 \<le> ord c \<and> ord c \<le> 90)"

definition islower :: "char \<Rightarrow> bool" where
  "islower c = (97 \<le> ord c \<and> ord c \<le> 122)"

text \<open>A word character of \<^verbatim>\<open>\w\<close>: a letter, a digit or the underscore.\<close>

definition isword :: "char \<Rightarrow> bool" where
  "isword c = (isdigit c \<or> isupper c \<or> islower c \<or> ord c = 95)"

definition lower_char :: "char \<Rightarrow> char" where
  "lower_char c = (if isupper c then char_of (ord c + 32) else c)"

definition upper_char :: "char \<Rightarrow> char" where
  "upper_char c = (if islower c then char_of (ord c - 32) else c)"

definition lower :: "string \<Rightarrow> string" where
  "lower s = map lower_char s"

definition upper :: "string \<Rightarrow> string" where
  "upper s = map upper_char s"

text \<open>\<^verbatim>\<open>s.strip()\<close> and \<^verbatim>\<open>s.strip(chars)\<close>.\<close>

definition strip :: "string \<Rightarrow> string" where
  "strip s = rev (dropWhile isspace (rev (dropWhile isspace s)))"

definition strip_chars :: "string \<Rightarrow> string \<Rightarrow> string" where
  "strip_chars cs s =
     rev (dropWhile (\<lambda>c. c \<in> set cs) (rev (dropWhile (\<lambda>c. c \<in> set cs) s)))"

text \<open>\<^verbatim>\<open>s.split(sep)\<close> for a one-character separator: never an empty list.\<close>

fun split :: "char \<Rightarrow> string \<Rightarrow> string list" where
  "split sep [] = [[]]"
| "split sep (c # t) =
     (if c = sep then [] # split sep t
      else (case split sep t of [] \<Rightarrow> [[c]] | p # ps \<Rightarrow> (c # p) # ps))"

text \<open>
  \<^verbatim>\<open>s.splitlines()\<close>: the line read so far is kept reversed in \<open>acc\<close>; CR LF is one
  boundary; no line is reported after a final boundary.
\<close>

fun splitlines_from :: "string \<Rightarrow> string \<Rightarrow> string list" where
  "splitlines_from acc [] = (if acc = [] then [] else [rev acc])"
| "splitlines_from acc [c] =
     (if islinebreak c then [rev acc] else [rev (c # acc)])"
| "splitlines_from acc (c # d # t) =
     (if c = CHR 0x0D \<and> d = CHR 0x0A then rev acc # splitlines_from [] t
      else if islinebreak c then rev acc # splitlines_from [] (d # t)
      else splitlines_from (c # acc) (d # t))"

definition splitlines :: "string \<Rightarrow> string list" where
  "splitlines s = splitlines_from [] s"

text \<open>\<^verbatim>\<open>sub in s\<close> on strings.\<close>

fun startswith :: "string \<Rightarrow> string \<Rightarrow> bool" where
  "startswith s [] = True"
| "startswith [] (p # ps) = False"
| "startswith (c # t) (p # ps) = (c = p \<and> startswith t ps)"

fun contains :: "string \<Rightarrow> string \<Rightarrow> bool" where
  "contains sub [] = (sub = [])"
| "contains sub (c # t) = (startswith (c # t) sub \<or> contains sub t)"

text \<open>\<^verbatim>\<open>s[i:j]\<close> for \<open>0 \<le> i \<le> j\<close>: out-of-range bounds are clamped.\<close>

definition slice :: "nat \<Rightarrow> nat \<Rightarrow> string \<Rightarrow> string" where
  "slice i j s = take (j - i) (drop i s)"

fun join :: "string \<Rightarrow> string list \<Rightarrow> string" where
  "join sep [] = []"
| "join sep [x] = x"
| "join sep (x # y # ys) = x @ sep @ join sep (y # ys)"

text \<open>\<^verbatim>\<open>s.replace(old, new)\<close> for a one-character \<open>old\<close>.\<close>

definition replace :: "char \<Rightarrow> string \<Rightarrow> string \<Rightarrow> string" where
  "replace old new s = concat (map (\<lambda>c. if c = old then new else [c]) s)"

section \<open>Regular expressions\<close>

text \<open>
  The part of Python's \<^verbatim>\<open>re\<close> that the scanner's three patterns use: character sets,
  concatenation, a counted repeat \<^verbatim>\<open>r{n}\<close>, the greedy \<^verbatim>\<open>c+\<close> of a one-character
  expression \<open>c\<close> (every \<^verbatim>\<open>+\<close> of the source is of that kind), and capturing groups.
\<close>

datatype citem =
    Lit char              \<comment> \<open>a literal character\<close>
  | Range char char       \<comment> \<open>\<^verbatim>\<open>a-f\<close>\<close>
  | Digit                 \<comment> \<open>\<^verbatim>\<open>\d\<close>\<close>
  | Space                 \<comment> \<open>\<^verbatim>\<open>\s\<close>\<close>
  | NotSpace              \<comment> \<open>\<^verbatim>\<open>\S\<close>\<close>
  | Word                  \<comment> \<open>\<^verbatim>\<open>\w\<close>\<close>

datatype regex =
    Eps
  | In "citem list"       \<comment> \<open>one character of a set; a single escape or literal is a set of one\<close>
  | Seq regex regex
  | Times nat regex       \<comment> \<open>\<^verbatim>\<open>r{n}\<close>\<close>
  | Plus "citem list"     \<comment> \<open>\<^verbatim>\<open>c+\<close>, greedy\<close>
  | Group string regex    \<comment> \<open>\<^verbatim>\<open>(?P<name>r)\<close>; an unnamed group goes by its number\<close>

fun item_matches :: "citem \<Rightarrow> char \<Rightarrow> bool" where
  "item_matches (Lit a) c = (c = a)"
| "item_matches (Range a b) c = (ord a \<le> ord c \<and> ord c \<le> ord b)"
| "item_matches Digit c = isdigit c"
| "item_matches Space c = isspace c"
| "item_matches NotSpace c = (\<not> isspace c)"
| "item_matches Word c = isword c"

text \<open>
  Membership in a set. Under \<^verbatim>\<open>re.IGNORECASE\<close> (\<open>ic\<close>) a character is in the set when
  it, its lower-case or its upper-case form is.
\<close>

definition in_set :: "bool \<Rightarrow> citem list \<Rightarrow> char \<Rightarrow> bool" where
  "in_set ic cs c =
     (list_ex (\<lambda>i. item_matches i c) cs \<or>
      (ic \<and> list_ex (\<lambda>i. item_matches i (lower_char c) \<or> item_matches i (upper_char c)) cs))"

type_synonym groups = "(string \<times> string) list"

text \<open>
  The ways a greedy \<^verbatim>\<open>c+\<close> can match at the start of a text, longest first: each
  as the text consumed and the text left.
\<close>

fun greedy :: "(char \<Rightarrow> bool) \<Rightarrow> string \<Rightarrow> (string \<times> string) list" where
  "greedy p [] = []"
| "greedy p (c # t) =
     (if p c then map (\<lambda>(u, t'). (c # u, t')) (greedy p t) @ [([c], t)] else [])"

text \<open>
  The backtracking matcher: \<open>rmatch ic r g s\<close> lists, in the order in which the engine
  tries them, the ways \<open>r\<close> can match at the start of \<open>s\<close>, each as the groups bound
  so far (latest binding first), the text consumed and the text left.
\<close>

definition followed_by ::
  "(groups \<Rightarrow> string \<Rightarrow> (groups \<times> string \<times> string) list) \<Rightarrow> groups \<times> string \<times> string
     \<Rightarrow> (groups \<times> string \<times> string) list" where
  "followed_by m x =
     (case x of (g1, u, t) \<Rightarrow> map (\<lambda>(g2, v, t'). (g2, u @ v, t')) (m g1 t))"

function rmatch :: "bool \<Rightarrow> regex \<Rightarrow> groups \<Rightarrow> string \<Rightarrow> (groups \<times> string \<times> string) list" where
  "rmatch ic Eps g s = [(g, [], s)]"
| "rmatch ic (In cs) g s =
     (case s of [] \<Rightarrow> [] | c # t \<Rightarrow> if in_set ic cs c then [(g, [c], t)] else [])"
| "rmatch ic (Seq a b) g s =
     concat (map (followed_by (\<lambda>g1 t. rmatch ic b g1 t)) (rmatch ic a g s))"
| "rmatch ic (Times 0 r) g s = [(g, [], s)]"
| "rmatch ic (Times (Suc n) r) g s =
     concat (map (followed_by (\<lambda>g1 t. rmatch ic (Times n r) g1 t)) (rmatch ic r g s))"
| "rmatch ic (Plus cs) g s = map (\<lambda>(u, t). (g, u, t)) (greedy (in_set ic cs) s)"
| "rmatch ic (Group name r) g s =
     map (\<lambda>(g', u, t). ((name, u) # g', u, t)) (rmatch ic r g s)"
  by pat_completeness auto

fun repeats :: "regex \<Rightarrow> nat" where
  "repeats (Times n r) = n"
| "repeats r = 0"

termination rmatch
  by (relation "measures [\<lambda>(ic, r, g, s). size r, \<lambda>(ic, r, g, s). repeats r]") auto

text \<open>\<^verbatim>\<open>pattern.search(line)\<close>: the first way to match at the leftmost possible start.\<close>

fun search :: "bool \<Rightarrow> regex \<Rightarrow> string \<Rightarrow> groups option" where
  "search ic r [] = (case rmatch ic r [] [] of [] \<Rightarrow> None | x # _ \<Rightarrow> Some (fst x))"
| "search ic r (c # t) =
     (case rmatch ic r [] (c # t) of [] \<Rightarrow> search ic r t | x # _ \<Rightarrow> Some (fst x))"

text \<open>\<^verbatim>\<open>match.group(name)\<close>; every named group of the patterns below takes part in a match.\<close>

definition group :: "groups \<Rightarrow> string \<Rightarrow> string" where
  "group g name = (case map_of g name of None \<Rightarrow> [] | Some v \<Rightarrow> v)"

fun cat :: "regex list \<Rightarrow> regex" where
  "cat [] = Eps"
| "cat [r] = r"
| "cat (r # rs) = Seq r (cat rs)"

definition lit :: "string \<Rightarrow> regex" where
  "lit s = cat (map (\<lambda>c. In [Lit c]) s)"

definition hexdigit :: "citem list" where
  "hexdigit = [Range CHR ''0'' CHR ''9'', Range CHR ''a'' CHR ''f'']"

section \<open>MAC address formats\<close>

text \<open>
  \<^verbatim>\<open>mac_to_huawei_format\<close>: \<^verbatim>\<open>re.sub(r"[^0-9a-fA-F]", "", mac)\<close> deletes every
  character outside the set, then three slices are joined by hyphens.
\<close>

definition ishex :: "char \<Rightarrow> bool" where
  "ishex c = in_set False
     [Range CHR ''0'' CHR ''9'', Range CHR ''a'' CHR ''f'', Range CHR ''A'' CHR ''F''] c"

definition mac_to_huawei_format :: "string \<Rightarrow> string" where
  "mac_to_huawei_format mac =
     (let mac_clean = filter ishex mac
      in slice 0 4 mac_clean @ ''-'' @ slice 4 8 mac_clean @ ''-'' @ slice 8 12 mac_clean)"

definition huawei_mac_to_standard :: "string \<Rightarrow> string" where
  "huawei_mac_to_standard mac =
     (let mac_clean = lower (replace CHR ''-'' [] mac)
      in upper (join '':'' (map (\<lambda>i. slice i (i + 2) mac_clean) [0, 2, 4, 6, 8, 10])))"

text \<open>
  A standard MAC string: six groups of two hexadecimal digits, separated by colons.
\<close>

definition valid_standard_mac :: "string \<Rightarrow> bool" where
  "valid_standard_mac mac =
     (let groups = split CHR '':'' mac
      in length groups = 6 \<and> list_all (\<lambda>g. length g = 2 \<and> list_all ishex g) groups)"

section \<open>Output parsers\<close>

text \<open>
  A handler returns the tuple \<^verbatim>\<open>(mac, interface, ip, hostname, attribute1, attribute2)\<close>.
\<close>

record match_record =
  rec_mac :: string
  rec_interface :: string
  rec_ip :: string
  rec_hostname :: string
  rec_attribute1 :: string
  rec_attribute2 :: string

text \<open>The pattern of \<^verbatim>\<open>handle_huawei_device\<close>, compiled with \<^verbatim>\<open>re.IGNORECASE\<close>.\<close>

definition huawei_pattern :: regex where
  "huawei_pattern = cat
     [Group ''mac'' (cat [Times 4 (In hexdigit), lit ''-'', Times 4 (In hexdigit), lit ''-'',
                          Times 4 (In hexdigit)]),
      Plus [Space],
      Group ''vlan'' (Plus [NotSpace]),
      Plus [Space],
      Group ''interface'' (Plus [NotSpace]),
      Plus [Space],
      Group ''type'' (Plus [NotSpace])]"

text \<open>The pattern of \<^verbatim>\<open>handle_alcatel_device\<close>, compiled with \<^verbatim>\<open>re.IGNORECASE\<close>.\<close>

definition alcatel_pattern :: regex where
  "alcatel_pattern = cat
     [Group ''service'' (Plus [Digit]),
      Plus [Space],
      Group ''mac''
        (cat [Times 5 (Group ''3'' (cat [Times 2 (In hexdigit),
                                         In [Lit CHR '':'', Lit CHR ''-'']])),
              Times 2 (In hexdigit)]),
      Plus [Space],
      lit ''sap:'',
      Group ''interface'' (Plus [Word, Lit CHR ''-'', Lit CHR '':'']),
      Plus [Space],
      Group ''age'' (cat [In [Lit CHR ''L'', Lit CHR ''D''], lit ''/'', Plus [Digit]]),
      Plus [Space],
      Group ''timestamp''
        (cat [Times 2 (In [Digit]), lit ''/'', Times 2 (In [Digit]), lit ''/'',
              Times 2 (In [Digit]), Plus [Space],
              Times 2 (In [Digit]), lit '':'', Times 2 (In [Digit]), lit '':'',
              Times 2 (In [Digit])])]"

text \<open>
  The \<^verbatim>\<open>for line in mac_output.splitlines()\<close> loops of the two handlers: the first line
  on which the pattern is found gives the record. (Setting the stop event on that line
  is done by the handlers below.)
\<close>

fun huawei_rows :: "string list \<Rightarrow> string \<Rightarrow> string \<Rightarrow> match_record option" where
  "huawei_rows [] ip hostname = None"
| "huawei_rows (line # rest) ip hostname =
     (case search True huawei_pattern line of
        None \<Rightarrow> huawei_rows rest ip hostname
      | Some m \<Rightarrow>
          (let mac_huawei = upper (group m ''mac'');
               mac = huawei_mac_to_standard mac_huawei;
               vlan = group m ''vlan'';
               interface = group m ''interface'';
               mac_type = group m ''type''
           in Some \<lparr>rec_mac = mac, rec_interface = interface, rec_ip = ip,
                     rec_hostname = hostname, rec_attribute1 = ''VLAN/VSI='' @ vlan,
                     rec_attribute2 = ''Type='' @ mac_type\<rparr>))"

fun alcatel_rows :: "string list \<Rightarrow> string \<Rightarrow> string \<Rightarrow> match_record option" where
  "alcatel_rows [] ip hostname = None"
| "alcatel_rows (line # rest) ip hostname =
     (case search True alcatel_pattern line of
        None \<Rightarrow> alcatel_rows rest ip hostname
      | Some m \<Rightarrow>
          (let service = group m ''service'';
               mac = upper (replace CHR ''-'' '':'' (group m ''mac''));
               interface = group m ''interface'';
               timestamp = group m ''timestamp''
           in Some \<lparr>rec_mac = mac, rec_interface = interface, rec_ip = ip,
                     rec_hostname = hostname, rec_attribute1 = ''Service='' @ service,
                     rec_attribute2 = ''LastSeen='' @ timestamp\<rparr>))"

section \<open>Sessions, shared state and events\<close>

text \<open>
  What a netmiko call raises is an \<open>exn\<close> value; \<^verbatim>\<open>UnboundLocalError\<close> is what Python
  raises when \<^verbatim>\<open>mac_output\<close> is read before the polling loop has assigned it.
\<close>

datatype exn = ZeroDivisionError | UnboundLocalError | DeviceError string

text \<open>
  The connection object returned by \<^verbatim>\<open>ConnectHandler\<close>, by what each of its methods
  does when the scanner calls it. \<open>send_command_timing\<close> is given the time of the call
  and the command; it answers with the text read back and the seconds it took.
\<close>

record session =
  set_base_prompt :: "exn option"
  find_prompt :: "exn + string"
  send_command :: "string \<Rightarrow> exn option"
  send_command_timing :: "nat \<Rightarrow> string \<Rightarrow> exn + string \<times> nat"
  disconnect :: "exn option"

record device =
  device_type :: string
  host :: string
  username :: string
  password :: string

text \<open>
  The surroundings of one poller: the credentials read from the process environment,
  whether another thread has set \<^verbatim>\<open>mac_found_event\<close> by a given time, and the outcome
  of the socket probe and \<^verbatim>\<open>ConnectHandler\<close> for a device with the seconds they took.
\<close>

record env =
  USERNAME :: string
  PASSWORD :: string
  found_elsewhere :: "nat \<Rightarrow> bool"
  open_session :: "device \<Rightarrow> (exn + session) \<times> nat"

text \<open>
  The module's globals, and \<^verbatim>\<open>time.time()\<close> in whole seconds as \<open>clock\<close>. The clock
  advances while a session is opened, while \<^verbatim>\<open>send_command_timing\<close> waits and during
  \<^verbatim>\<open>time.sleep\<close>; every other step takes no time in the model.
\<close>

record state =
  clock :: nat
  mac_found_event :: bool
  completed_devices :: int
  total_devices :: int
  scan_start_time :: "nat option"

text \<open>
  What a poller does to the outside, in order. Of the console lines only the error
  lines (\<^verbatim>\<open>[X] ...\<close>) and the progress line are recorded.
\<close>

datatype event =
    ConnectionError string exn            \<comment> \<open>\<^verbatim>\<open>[X] Connection error for host\<close>\<close>
  | Connected string                      \<comment> \<open>a session to the host is open\<close>
  | SetBasePrompt
  | FindPrompt
  | SendCommand string
  | SendCommandTiming string "string option"  \<comment> \<open>the command and the text read back, if any\<close>
  | Sleep nat
  | Disconnect
  | SetEvent                              \<comment> \<open>\<^verbatim>\<open>mac_found_event.set()\<close>\<close>
  | LockAcquire
  | LockRelease
  | Increment                             \<comment> \<open>\<^verbatim>\<open>completed_devices += 1\<close>\<close>
  | ProgressLine int int string           \<comment> \<open>completed, total, ETA\<close>
  | ErrorLine string exn                  \<comment> \<open>\<^verbatim>\<open>[X] Error on ip\<close>\<close>

definition is_set :: "env \<Rightarrow> state \<Rightarrow> bool" where
  "is_set e s = (mac_found_event s \<or> found_elsewhere e (clock s))"

section \<open>Progress reporting\<close>

definition truediv :: "real \<Rightarrow> int \<Rightarrow> exn + real" where
  "truediv a b = (if b = 0 then Inl ZeroDivisionError else Inr (a / real_of_int b))"

definition two_digits :: "nat \<Rightarrow> string" where
  "two_digits n = [char_of (48 + n div 10 mod 10), char_of (48 + n mod 10)]"

text \<open>
  \<^verbatim>\<open>time.strftime("%H:%M:%S", time.gmtime(x))\<close>: the time of day of \<open>x\<close> seconds after
  the epoch, rounded down. The platform's limits on \<^verbatim>\<open>time_t\<close> and on floats are not
  modelled.
\<close>

definition strftime_HMS :: "real \<Rightarrow> string" where
  "strftime_HMS x =
     (let t = nat (\<lfloor>x\<rfloor> mod 86400)
      in two_digits (t div 3600) @ '':'' @ two_digits (t mod 3600 div 60) @ '':'' @
         two_digits (t mod 60))"

definition avg_time_per_device :: "real \<Rightarrow> int \<Rightarrow> exn + real" where
  "avg_time_per_device elapsed completed =
     (if completed > 0 then truediv elapsed completed else Inr 0)"

definition print_progress :: "state \<Rightarrow> exn + event list" where
  "print_progress s =
     (case scan_start_time s of
        None \<Rightarrow> Inr []
      | Some t0 \<Rightarrow>
          (let elapsed = real (clock s) - real t0
           in case avg_time_per_device elapsed (completed_devices s) of
                Inl x \<Rightarrow> Inl x
              | Inr avg \<Rightarrow>
                  (let remaining_devices = total_devices s - completed_devices s;
                       eta_seconds = avg * real_of_int remaining_devices;
                       eta_str = strftime_HMS eta_seconds
                   in Inr [ProgressLine (completed_devices s) (total_devices s) eta_str])))"

text \<open>
  \<^verbatim>\<open>with progress_lock: completed_devices += 1; print_progress()\<close>, which
  \<^verbatim>\<open>handle_device\<close> has three times. An exception leaves the block through the lock's
  release.
\<close>

definition count_device :: "state \<Rightarrow> exn option \<times> state \<times> event list" where
  "count_device s =
     (let s1 = s\<lparr>completed_devices := completed_devices s + 1\<rparr>
      in case print_progress s1 of
           Inl x \<Rightarrow> (Some x, s1, [LockAcquire, Increment, LockRelease])
         | Inr evs \<Rightarrow> (None, s1, [LockAcquire, Increment] @ evs @ [LockRelease]))"

section \<open>The polling loop and the vendor handlers\<close>

text \<open>
  How the \<^verbatim>\<open>while\<close> loop of a handler is left: by \<^verbatim>\<open>return None\<close>, by an exception,
  or to the statement after the loop (by \<^verbatim>\<open>break\<close> or because the time is up) with
  \<^verbatim>\<open>mac_output\<close> as last assigned, if ever.
\<close>

datatype loop_exit = Return_None | Raise exn | After "string option"

text \<open>
  The loop is the same in both handlers, up to the command sent and the text looked
  for (\<open>needle\<close>).
\<close>

function poll_loop ::
  "env \<Rightarrow> session \<Rightarrow> string \<Rightarrow> string \<Rightarrow> nat \<Rightarrow> int \<Rightarrow> string option \<Rightarrow> state
     \<Rightarrow> loop_exit \<times> state \<times> event list" where
  "poll_loop e conn cmd needle start_time timeout mac_output s =
     (if int (clock s) - int start_time < timeout then
        (if is_set e s then (Return_None, s, [])
         else
           (case send_command_timing conn (clock s) cmd of
              Inl x \<Rightarrow> (Raise x, s, [SendCommandTiming cmd None])
            | Inr (raw, d) \<Rightarrow>
                (let out = strip raw;
                     s1 = s\<lparr>clock := clock s + d\<rparr>;
                     sent = SendCommandTiming cmd (Some raw)
                 in if out = [] then (Return_None, s1, [sent])
                    else if contains needle (lower out) then (After (Some out), s1, [sent])
                    else
                      (case poll_loop e conn cmd needle start_time timeout (Some out)
                              (s1\<lparr>clock := clock s1 + 2\<rparr>) of
                         (x, s2, evs) \<Rightarrow> (x, s2, sent # Sleep 2 # evs)))))
      else (After mac_output, s, []))"
  by pat_completeness auto
termination
  by (relation "measure (\<lambda>(e, conn, cmd, needle, start_time, timeout, mac_output, s).
                  nat (int start_time + timeout - int (clock s)))") auto

type_synonym handler_result = "(exn + match_record option) \<times> state \<times> event list"

definition handle_huawei_device ::
  "env \<Rightarrow> session \<Rightarrow> string \<Rightarrow> string \<Rightarrow> string \<Rightarrow> int \<Rightarrow> state \<Rightarrow> handler_result" where
  "handle_huawei_device e conn hostname ip search_mac timeout s =
     (if is_set e s then (Inr None, s, [])
      else
        (let huawei_mac = lower (mac_to_huawei_format search_mac);
             cmd = ''display mac-address | include '' @ huawei_mac;
             paging = SendCommand ''screen-length 0 temporary''
         in case send_command conn ''screen-length 0 temporary'' of
              Some x \<Rightarrow> (Inl x, s, [paging])
            | None \<Rightarrow>
                (case poll_loop e conn cmd huawei_mac (clock s) timeout None s of
                   (Return_None, s1, evs) \<Rightarrow> (Inr None, s1, paging # evs)
                 | (Raise x, s1, evs) \<Rightarrow> (Inl x, s1, paging # evs)
                 | (After None, s1, evs) \<Rightarrow> (Inl UnboundLocalError, s1, paging # evs)
                 | (After (Some mac_output), s1, evs) \<Rightarrow>
                     (if \<not> contains huawei_mac (lower mac_output)
                      then (Inr None, s1, paging # evs)
                      else
                        (case huawei_rows (splitlines mac_output) ip hostname of
                           None \<Rightarrow> (Inr None, s1, paging # evs)
                         | Some r \<Rightarrow>
                             (Inr (Some r), s1\<lparr>mac_found_event := True\<rparr>,
                              paging # evs @ [SetEvent]))))))"

definition handle_alcatel_device ::
  "env \<Rightarrow> session \<Rightarrow> string \<Rightarrow> string \<Rightarrow> string \<Rightarrow> int \<Rightarrow> state \<Rightarrow> handler_result" where
  "handle_alcatel_device e conn hostname ip search_mac timeout s =
     (if is_set e s then (Inr None, s, [])
      else
        (let search_mac_lower = lower search_mac;
             cmd = ''show service fdb-mac | match '' @ search_mac_lower;
             paging = SendCommand ''environment no more''
         in case send_command conn ''environment no more'' of
              Some x \<Rightarrow> (Inl x, s, [paging])
            | None \<Rightarrow>
                (case poll_loop e conn cmd search_mac_lower (clock s) timeout None s of
                   (Return_None, s1, evs) \<Rightarrow> (Inr None, s1, paging # evs)
                 | (Raise x, s1, evs) \<Rightarrow> (Inl x, s1, paging # evs)
                 | (After None, s1, evs) \<Rightarrow> (Inl UnboundLocalError, s1, paging # evs)
                 | (After (Some mac_output), s1, evs) \<Rightarrow>
                     (if \<not> contains search_mac_lower (lower mac_output)
                      then (Inr None, s1, paging # evs)
                      else
                        (case alcatel_rows (splitlines mac_output) ip hostname of
                           None \<Rightarrow> (Inr None, s1, paging # evs)
                         | Some r \<Rightarrow>
                             (Inr (Some r), s1\<lparr>mac_found_event := True\<rparr>,
                              paging # evs @ [SetEvent]))))))"

section \<open>One device\<close>

text \<open>
  \<^verbatim>\<open>ssh_connect\<close> catches whatever the socket probe or \<^verbatim>\<open>ConnectHandler\<close> raises,
  reports it and returns \<^verbatim>\<open>None\<close>.
\<close>

definition ssh_connect :: "env \<Rightarrow> device \<Rightarrow> state \<Rightarrow> session option \<times> state \<times> event list" where
  "ssh_connect e dev s =
     (case open_session e dev of
        (Inl x, d) \<Rightarrow> (None, s\<lparr>clock := clock s + d\<rparr>, [ConnectionError (host dev) x])
      | (Inr conn, d) \<Rightarrow> (Some conn, s\<lparr>clock := clock s + d\<rparr>, [Connected (host dev)]))"

text \<open>The body of the \<^verbatim>\<open>try\<close> statement of \<^verbatim>\<open>handle_device\<close>.\<close>

definition try_body ::
  "env \<Rightarrow> device \<Rightarrow> string \<Rightarrow> string \<Rightarrow> string \<Rightarrow> int \<Rightarrow> state \<Rightarrow> handler_result" where
  "try_body e dev vendor ip search_mac timeout s =
     (case ssh_connect e dev s of
        (None, s1, evs1) \<Rightarrow> (Inr None, s1, evs1)
      | (Some conn, s1, evs1) \<Rightarrow>
          (case set_base_prompt conn of
             Some x \<Rightarrow> (Inl x, s1, evs1 @ [SetBasePrompt])
           | None \<Rightarrow>
               (case find_prompt conn of
                  Inl x \<Rightarrow> (Inl x, s1, evs1 @ [SetBasePrompt, FindPrompt])
                | Inr prompt \<Rightarrow>
                    (let hostname = strip (strip_chars ''<># '' prompt)
                     in case (if vendor = ''huawei''
                              then handle_huawei_device e conn hostname ip search_mac timeout s1
                              else handle_alcatel_device e conn hostname ip search_mac timeout s1) of
                          (Inl x, s2, evs2) \<Rightarrow>
                            (Inl x, s2, evs1 @ [SetBasePrompt, FindPrompt] @ evs2)
                        | (Inr result, s2, evs2) \<Rightarrow>
                            (case disconnect conn of
                               Some x \<Rightarrow>
                                 (Inl x, s2,
                                  evs1 @ [SetBasePrompt, FindPrompt] @ evs2 @ [Disconnect])
                             | None \<Rightarrow>
                                 (Inr result, s2,
                                  evs1 @ [SetBasePrompt, FindPrompt] @ evs2 @ [Disconnect]))))))"

text \<open>The two places where a device line is skipped: counted, then \<^verbatim>\<open>return None\<close>.\<close>

definition skip_device :: "state \<Rightarrow> handler_result" where
  "skip_device s =
     (case count_device s of
        (Some x, s1, evs) \<Rightarrow> (Inl x, s1, evs)
      | (None, s1, evs) \<Rightarrow> (Inr None, s1, evs))"

definition handle_device :: "env \<Rightarrow> string \<Rightarrow> string \<Rightarrow> int \<Rightarrow> state \<Rightarrow> handler_result" where
  "handle_device e device_info search_mac timeout s =
     (if is_set e s then (Inr None, s, [])
      else
        (case split CHR '','' (strip device_info) of
           [part0, part1] \<Rightarrow>
             (let ip = strip part0; vendor = lower (strip part1)
              in if vendor \<notin> set [''huawei'', ''alcatel_aos''] then skip_device s
                 else
                   (let dev = \<lparr>device_type = vendor, host = ip,
                                username = USERNAME e, password = PASSWORD e\<rparr>
                    in case try_body e dev vendor ip search_mac timeout s of
                         (outcome, s1, evs1) \<Rightarrow>
                           (let (result, evs2) =
                                  (case outcome of
                                     Inl x \<Rightarrow> (None, evs1 @ [ErrorLine ip x])
                                   | Inr r \<Rightarrow> (r, evs1))
                            in case count_device s1 of
                                 (Some x, s2, evs3) \<Rightarrow> (Inl x, s2, evs2 @ evs3)
                               | (None, s2, evs3) \<Rightarrow> (Inr result, s2, evs2 @ evs3))))
         | _ \<Rightarrow> skip_device s))"

section \<open>The coordinator\<close>

text \<open>\<^verbatim>\<open>main\<close> keeps the target as \<^verbatim>\<open>sys.argv[2].lower()\<close>.\<close>

definition scan_target :: "string \<Rightarrow> string" where
  "scan_target arg = lower arg"

text \<open>
  The \<^verbatim>\<open>for future in as_completed(...)\<close> loop of \<^verbatim>\<open>main\<close>, over the futures in the
  order in which they complete. Each comes with whether some worker has set
  \<^verbatim>\<open>mac_found_event\<close> by then and with what \<^verbatim>\<open>future.result()\<close> gives or raises. The
  loop's state is the event and \<^verbatim>\<open>found_result\<close>.
\<close>

fun as_completed_loop ::
  "(bool \<times> (exn + match_record option)) list \<Rightarrow> bool \<Rightarrow> match_record option
     \<Rightarrow> match_record option \<times> bool" where
  "as_completed_loop [] ev found_result = (found_result, ev)"
| "as_completed_loop ((set_by_worker, outcome) # rest) ev found_result =
     (let ev1 = (ev \<or> set_by_worker)
      in if ev1 \<and> found_result \<noteq> None then (found_result, ev1)
         else
           (case outcome of
              Inl x \<Rightarrow> as_completed_loop rest ev1 found_result
            | Inr None \<Rightarrow> as_completed_loop rest ev1 found_result
            | Inr (Some result) \<Rightarrow> (Some result, True)))"

text \<open>The scan summary: the record found, or the target reported as not found.\<close>

datatype scan_outcome = Found match_record | NotFoundAnywhere string

definition main :: "string \<Rightarrow> (bool \<times> (exn + match_record option)) list \<Rightarrow> scan_outcome \<times> bool" where
  "main arg completions =
     (let search_mac = scan_target arg
      in case as_completed_loop completions False None of
           (Some r, ev) \<Rightarrow> (Found r, ev)
         | (None, ev) \<Rightarrow> (NotFoundAnywhere (upper search_mac), ev))"

section \<open>Notions used in the properties\<close>

text \<open>The events of the progress lock and of the counter.\<close>

fun locking :: "event \<Rightarrow> bool" where
  "locking LockAcquire = True"
| "locking LockRelease = True"
| "locking Increment = True"
| "locking ev = False"

text \<open>The events of opening a session, and the error lines.\<close>

fun connecting :: "event \<Rightarrow> bool" where
  "connecting (Connected h) = True"
| "connecting (ConnectionError h x) = True"
| "connecting ev = False"

fun reporting_error :: "event \<Rightarrow> bool" where
  "reporting_error (ConnectionError h x) = True"
| "reporting_error (ErrorLine h x) = True"
| "reporting_error ev = False"

text \<open>The events of talking to the device: a command sent, or a pause between two.\<close>

fun polling :: "event \<Rightarrow> bool" where
  "polling (SendCommand cmd) = True"
| "polling (SendCommandTiming cmd out) = True"
| "polling (Sleep n) = True"
| "polling ev = False"

text \<open>A polling command that read back nothing but white space.\<close>

fun empty_read :: "event \<Rightarrow> bool" where
  "empty_read (SendCommandTiming cmd (Some raw)) = (strip raw = [])"
| "empty_read ev = False"

text \<open>
  A device-list line with a field count other than two or with an unrecognized vendor.
\<close>

definition malformed :: "string \<Rightarrow> bool" where
  "malformed device_info =
     (let parts = split CHR '','' (strip device_info)
      in length parts \<noteq> 2 \<or> lower (strip (parts ! 1)) \<notin> set [''huawei'', ''alcatel_aos''])"

text \<open>The names of the groups of an expression.\<close>

fun names :: "regex \<Rightarrow> string list" where
  "names (Group n r) = n # names r"
| "names (Seq a b) = names a @ names b"
| "names (Times n r) = names r"
| "names r = []"

text \<open>Two target strings that denote the same hexadecimal digits.\<close>

definition same_digits :: "string \<Rightarrow> string \<Rightarrow> bool" where
  "same_digits a b = (lower (filter ishex a) = lower (filter ishex b))"

text \<open>A completed future whose result is a record.\<close>

fun is_found :: "bool \<times> (exn + match_record option) \<Rightarrow> bool" where
  "is_found (w, Inr (Some r)) = True"
| "is_found c = False"

section \<open>Sample surroundings\<close>

text \<open>
  A session that answers every polling command with the same text after one second,
  an environment in which no other thread finds the address and every device opens
  that session after one second, and the globals as \<^verbatim>\<open>main\<close> leaves them before a
  scan of three devices.
\<close>

definition session_replying :: "string \<Rightarrow> session" where
  "session_replying out =
     \<lparr>set_base_prompt = None, find_prompt = Inr ''<sw1>'', send_command = (\<lambda>cmd. None),
      send_command_timing = (\<lambda>t cmd. Inr (out, 1)), disconnect = None\<rparr>"

definition quiet_env :: "session \<Rightarrow> env" where
  "quiet_env conn =
     \<lparr>USERNAME = ''admin'', PASSWORD = ''secret'', found_elsewhere = (\<lambda>t. False),
      open_session = (\<lambda>dev. (Inr conn, 1))\<rparr>"

definition scan_start :: state where
  "scan_start = \<lparr>clock = 0, mac_found_event = False, completed_devices = 0,
                 total_devices = 3, scan_start_time = Some 0\<rparr>"

text \<open>A session on which every \<^verbatim>\<open>send_command\<close> raises.\<close>

definition session_refusing :: session where
  "session_refusing =
     \<lparr>set_base_prompt = None, find_prompt = Inr ''<sw1>'',
      send_command = (\<lambda>cmd. Some (DeviceError ''Pattern not detected'')),
      send_command_timing = (\<lambda>t cmd. Inr ([], 1)), disconnect = None\<rparr>"


section \<open>Evaluation\<close>

declare poll_loop.simps [simp del]

lemma rmatch_Times_numeral:
  "rmatch ic (Times (numeral k) r) g s =
     concat (map (followed_by (\<lambda>g1 t. rmatch ic (Times (pred_numeral k) r) g1 t))
                 (rmatch ic r g s))"
  by (simp add: numeral_eq_Suc)

lemmas chars =
  ord_def isspace_def islinebreak_def isdigit_def isupper_def islower_def isword_def
  lower_char_def upper_char_def in_set_def char_of_def bit_Suc_0_iff

lemmas texts = chars lower_def upper_def strip_def strip_chars_def splitlines_def replace_def
  slice_def

lemmas patterns = chars alcatel_pattern_def huawei_pattern_def lit_def hexdigit_def
  rmatch_Times_numeral followed_by_def group_def

lemma huawei_line: "split CHR '','' (strip ''10.0.0.1,huawei'') = [''10.0.0.1'', ''huawei'']"
  "strip ''10.0.0.1'' = ''10.0.0.1''" "lower (strip ''huawei'') = ''huawei''"
  by (simp_all add: texts)

lemma sw1_prompt: "strip (strip_chars ''<># '' ''<sw1>'') = ''sw1''"
  by (simp add: texts)

lemma huawei_needle: "lower (mac_to_huawei_format ''aa:bb:cc:dd:ee:ff'') = ''aabb-ccdd-eeff''"
  by (simp add: mac_to_huawei_format_def ishex_def texts)

lemma no_items: "strip ''Total items: 0'' = ''Total items: 0''"
  "\<not> contains ''aabb-ccdd-eeff'' (lower ''Total items: 0'')"
  by (simp_all add: texts)

lemma eta_8: "strftime_HMS 8 = ''00:00:08''"
  by (simp add: strftime_HMS_def two_digits_def char_of_def bit_Suc_0_iff)

lemmas steps = handle_device_def try_body_def ssh_connect_def skip_device_def count_device_def
  print_progress_def avg_time_per_device_def truediv_def
  handle_huawei_device_def handle_alcatel_device_def is_set_def poll_loop.simps Let_def
  quiet_env_def session_replying_def session_refusing_def scan_start_def

section \<open>The MAC round trip\<close>

lemma split_not_Nil: "split sep s \<noteq> []"
  by (induction s) (auto split: list.splits)

lemma join_Cons_Cons: "join sep ((c # p) # ps) = c # join sep (p # ps)"
  by (cases ps) auto

lemma join_split: "join [sep] (split sep s) = s"
proof (induction s)
  case Nil
  show ?case by simp
next
  case (Cons c t)
  obtain p ps where sp: "split sep t = p # ps"
    using split_not_Nil [of sep t] by (cases "split sep t") auto
  show ?case
  proof (cases "c = sep")
    case True
    with Cons sp show ?thesis by simp
  next
    case False
    with Cons sp show ?thesis by (simp add: join_Cons_Cons)
  qed
qed

lemma length_two: "length g = 2 \<Longrightarrow> \<exists>a b. g = [a, b]"
  by (cases g; cases "tl g") auto

lemma upper_lower_char: "upper_char (lower_char c) = upper_char c"
  by (auto simp: upper_char_def lower_char_def isupper_def islower_def ord_def)

lemma ishex_not_sep: "ishex c \<Longrightarrow> c \<noteq> CHR ''-'' \<and> c \<noteq> CHR '':''"
  by (auto simp: ishex_def in_set_def ord_def)

lemma upper_colon: "upper_char CHR '':'' = CHR '':''"
  by (simp add: upper_char_def islower_def ord_def)

lemma valid_shape:
  assumes "valid_standard_mac mac"
  obtains a b c d e f g h i j k l where
    "mac = [a, b, CHR '':'', c, d, CHR '':'', e, f, CHR '':'', g, h, CHR '':'',
            i, j, CHR '':'', k, l]"
    and "list_all ishex [a, b, c, d, e, f, g, h, i, j, k, l]"
proof -
  from assms have len: "length (split CHR '':'' mac) = 6"
    and all: "list_all (\<lambda>g. length g = 2 \<and> list_all ishex g) (split CHR '':'' mac)"
    by (simp_all add: valid_standard_mac_def Let_def)
  from len obtain g1 g2 g3 g4 g5 g6 where
    sp: "split CHR '':'' mac = [g1, g2, g3, g4, g5, g6]"
    by (auto simp: eval_nat_numeral length_Suc_conv)
  from all sp have l2: "length g1 = 2" "length g2 = 2" "length g3 = 2" "length g4 = 2"
      "length g5 = 2" "length g6 = 2"
    and hx: "list_all ishex g1" "list_all ishex g2" "list_all ishex g3" "list_all ishex g4"
      "list_all ishex g5" "list_all ishex g6"
    by simp_all
  from l2 obtain a b c d e f g h i j k l where
    gs: "g1 = [a, b]" "g2 = [c, d]" "g3 = [e, f]" "g4 = [g, h]" "g5 = [i, j]" "g6 = [k, l]"
    by (metis length_two)
  have "mac = join '':'' (split CHR '':'' mac)"
    by (simp add: join_split)
  with sp gs have "mac = [a, b, CHR '':'', c, d, CHR '':'', e, f, CHR '':'', g, h, CHR '':'',
                          i, j, CHR '':'', k, l]"
    by simp
  moreover from hx gs have "list_all ishex [a, b, c, d, e, f, g, h, i, j, k, l]"
    by simp
  ultimately show thesis by (rule that)
qed

text \<open>
  C2. For every valid standard MAC string, converting it to the Huawei form with
  \<open>mac_to_huawei_format\<close> and back with \<open>huawei_mac_to_standard\<close> gives the original
  address in upper case, colon-separated.
\<close>

theorem mac_round_trip:
  "valid_standard_mac mac \<Longrightarrow> huawei_mac_to_standard (mac_to_huawei_format mac) = upper mac"
proof -
  assume "valid_standard_mac mac"
  then obtain a b c d e f g h i j k l where
    mac: "mac = [a, b, CHR '':'', c, d, CHR '':'', e, f, CHR '':'', g, h, CHR '':'',
                 i, j, CHR '':'', k, l]"
    and hx: "list_all ishex [a, b, c, d, e, f, g, h, i, j, k, l]"
    by (rule valid_shape)
  have nohex: "\<not> ishex CHR '':''"
    using ishex_not_sep by blast
  from hx have hu: "mac_to_huawei_format mac =
      [a, b, c, d, CHR ''-'', e, f, g, h, CHR ''-'', i, j, k, l]"
    by (simp add: mac mac_to_huawei_format_def slice_def nohex)
  from hx have ns: "a \<noteq> CHR ''-''" "b \<noteq> CHR ''-''" "c \<noteq> CHR ''-''" "d \<noteq> CHR ''-''"
      "e \<noteq> CHR ''-''" "f \<noteq> CHR ''-''" "g \<noteq> CHR ''-''" "h \<noteq> CHR ''-''"
      "i \<noteq> CHR ''-''" "j \<noteq> CHR ''-''" "k \<noteq> CHR ''-''" "l \<noteq> CHR ''-''"
    using ishex_not_sep by simp_all
  show ?thesis
    unfolding hu
    by (simp add: huawei_mac_to_standard_def replace_def ns lower_def upper_def slice_def
        upper_lower_char upper_colon mac)
qed

theorem mac_round_trip_witness:
  "valid_standard_mac ''aa:bB:0c:1D:ee:ff'' \<and>
   huawei_mac_to_standard (mac_to_huawei_format ''aa:bB:0c:1D:ee:ff'') = ''AA:BB:0C:1D:EE:FF''"
proof -
  have v: "valid_standard_mac ''aa:bB:0c:1D:ee:ff''"
    by (simp add: valid_standard_mac_def ishex_def chars)
  have u: "upper ''aa:bB:0c:1D:ee:ff'' = ''AA:BB:0C:1D:EE:FF''"
    by (simp add: texts)
  show ?thesis using v mac_round_trip [OF v] u by simp
qed

section \<open>The Alcatel row pattern\<close>

text \<open>
  C1. On the output line
  \<^verbatim>\<open>100  AA:BB:CC:DD:EE:FF sap:1/1/1:100 L/300 01/02/24 10:00:00\<close> with the target
  \<^verbatim>\<open>aa:bb:cc:dd:ee:ff\<close> the Alcatel parser should return the record with service 100,
  that MAC, interface \<^verbatim>\<open>1/1/1:100\<close> and the time stamp. The set \<^verbatim>\<open>[\w\-:]\<close> of the
  interface group has no \<^verbatim>\<open>/\<close>, so the pattern is not found on the line: the target
  is seen in the output, and the handler returns \<^verbatim>\<open>None\<close> without setting the event.
\<close>

theorem alcatel_port_sap_row_not_parsed:
  "contains (lower ''aa:bb:cc:dd:ee:ff'')
     (lower ''100  AA:BB:CC:DD:EE:FF sap:1/1/1:100 L/300 01/02/24 10:00:00'') \<and>
   alcatel_rows
     (splitlines ''100  AA:BB:CC:DD:EE:FF sap:1/1/1:100 L/300 01/02/24 10:00:00'')
     ip hostname = None \<and>
   handle_alcatel_device
     (quiet_env (session_replying
        ''100  AA:BB:CC:DD:EE:FF sap:1/1/1:100 L/300 01/02/24 10:00:00''))
     (session_replying ''100  AA:BB:CC:DD:EE:FF sap:1/1/1:100 L/300 01/02/24 10:00:00'')
     ''sw1'' ''10.0.0.1'' ''aa:bb:cc:dd:ee:ff'' 60 scan_start =
   (Inr None, scan_start\<lparr>clock := 1\<rparr>,
    [SendCommand ''environment no more'',
     SendCommandTiming ''show service fdb-mac | match aa:bb:cc:dd:ee:ff''
       (Some ''100  AA:BB:CC:DD:EE:FF sap:1/1/1:100 L/300 01/02/24 10:00:00'')])"
proof -
  have seen: "contains (lower ''aa:bb:cc:dd:ee:ff'')
     (lower ''100  AA:BB:CC:DD:EE:FF sap:1/1/1:100 L/300 01/02/24 10:00:00'')"
    by (simp add: texts)
  have rows: "alcatel_rows
     (splitlines ''100  AA:BB:CC:DD:EE:FF sap:1/1/1:100 L/300 01/02/24 10:00:00'')
     ip hostname = None" for ip hostname
    by (simp add: texts patterns)
  have low: "lower ''aa:bb:cc:dd:ee:ff'' = ''aa:bb:cc:dd:ee:ff''"
    by (simp add: texts)
  have str: "strip ''100  AA:BB:CC:DD:EE:FF sap:1/1/1:100 L/300 01/02/24 10:00:00'' =
     ''100  AA:BB:CC:DD:EE:FF sap:1/1/1:100 L/300 01/02/24 10:00:00''"
    by (simp add: texts)
  have "handle_alcatel_device
     (quiet_env (session_replying
        ''100  AA:BB:CC:DD:EE:FF sap:1/1/1:100 L/300 01/02/24 10:00:00''))
     (session_replying ''100  AA:BB:CC:DD:EE:FF sap:1/1/1:100 L/300 01/02/24 10:00:00'')
     ''sw1'' ''10.0.0.1'' ''aa:bb:cc:dd:ee:ff'' 60 scan_start =
   (Inr None, scan_start\<lparr>clock := 1\<rparr>,
    [SendCommand ''environment no more'',
     SendCommandTiming ''show service fdb-mac | match aa:bb:cc:dd:ee:ff''
       (Some ''100  AA:BB:CC:DD:EE:FF sap:1/1/1:100 L/300 01/02/24 10:00:00'')])"
    using seen rows
    by (simp add: handle_alcatel_device_def is_set_def quiet_env_def session_replying_def
        scan_start_def poll_loop.simps low str Let_def)
  with seen rows show ?thesis by simp
qed

section \<open>Progress reporting is total\<close>

lemma avg_time_no_error: "\<exists>avg. avg_time_per_device elapsed completed = Inr avg"
  by (simp add: avg_time_per_device_def truediv_def)

lemma print_progress_no_error:
  "\<exists>line. print_progress s = Inr line \<and> filter locking line = [] \<and>
     filter connecting line = [] \<and> filter reporting_error line = [] \<and>
     filter polling line = [] \<and> filter empty_read line = []"
proof (cases "scan_start_time s")
  case None
  then show ?thesis by (simp add: print_progress_def)
next
  case (Some t0)
  obtain avg where "avg_time_per_device (real (clock s) - real t0) (completed_devices s) = Inr avg"
    using avg_time_no_error by blast
  with Some show ?thesis by (simp add: print_progress_def Let_def)
qed

text \<open>
  C10. \<open>print_progress\<close> raises nothing, whatever the counters are: the average time per
  device is never a division by zero and is 0 when no device has completed; with
  \<open>scan_start_time\<close> unset nothing is printed.
\<close>

theorem print_progress_total:
  "(\<exists>line. print_progress s = Inr line) \<and>
   avg_time_per_device elapsed completed \<noteq> Inl ZeroDivisionError \<and>
   (completed = 0 \<longrightarrow> avg_time_per_device elapsed completed = Inr 0) \<and>
   (scan_start_time s = None \<longrightarrow> print_progress s = Inr [])"
proof -
  have "\<exists>line. print_progress s = Inr line"
    using print_progress_no_error by blast
  moreover have "avg_time_per_device elapsed completed \<noteq> Inl ZeroDivisionError"
    using avg_time_no_error [of elapsed completed] by auto
  moreover have "completed = 0 \<longrightarrow> avg_time_per_device elapsed completed = Inr 0"
    by (simp add: avg_time_per_device_def)
  moreover have "scan_start_time s = None \<longrightarrow> print_progress s = Inr []"
    by (simp add: print_progress_def)
  ultimately show ?thesis by blast
qed

theorem print_progress_total_witness:
  "print_progress (scan_start\<lparr>scan_start_time := None\<rparr>) = Inr [] \<and>
   avg_time_per_device 7 0 = Inr 0 \<and>
   print_progress (scan_start\<lparr>clock := 7\<rparr>) = Inr [ProgressLine 0 3 ''00:00:00'']"
proof -
  have a: "scan_start_time (scan_start\<lparr>scan_start_time := None\<rparr>) = None"
    by simp
  have b: "print_progress (scan_start\<lparr>clock := 7\<rparr>) = Inr [ProgressLine 0 3 ''00:00:00'']"
    by (simp add: print_progress_def scan_start_def avg_time_per_device_def strftime_HMS_def
        two_digits_def chars)
  show ?thesis
    using print_progress_total [of "scan_start\<lparr>scan_start_time := None\<rparr>" 7 0] a b by simp
qed

section \<open>The polling loop, round by round\<close>

lemma poll_loop_timeup:
  "\<not> int (clock s) - int start_time < timeout \<Longrightarrow>
   poll_loop e conn cmd needle start_time timeout mac_output s = (After mac_output, s, [])"
  by (subst poll_loop.simps) simp

lemma poll_loop_stopped:
  "int (clock s) - int start_time < timeout \<Longrightarrow> is_set e s \<Longrightarrow>
   poll_loop e conn cmd needle start_time timeout mac_output s = (Return_None, s, [])"
  by (subst poll_loop.simps) simp

lemma poll_loop_raised:
  "int (clock s) - int start_time < timeout \<Longrightarrow> \<not> is_set e s \<Longrightarrow>
   send_command_timing conn (clock s) cmd = Inl ex \<Longrightarrow>
   poll_loop e conn cmd needle start_time timeout mac_output s =
     (Raise ex, s, [SendCommandTiming cmd None])"
  by (subst poll_loop.simps) simp

lemma poll_loop_empty:
  "int (clock s) - int start_time < timeout \<Longrightarrow> \<not> is_set e s \<Longrightarrow>
   send_command_timing conn (clock s) cmd = Inr (raw, d) \<Longrightarrow> strip raw = [] \<Longrightarrow>
   poll_loop e conn cmd needle start_time timeout mac_output s =
     (Return_None, s\<lparr>clock := clock s + d\<rparr>, [SendCommandTiming cmd (Some raw)])"
  by (subst poll_loop.simps) simp

lemma poll_loop_seen:
  "int (clock s) - int start_time < timeout \<Longrightarrow> \<not> is_set e s \<Longrightarrow>
   send_command_timing conn (clock s) cmd = Inr (raw, d) \<Longrightarrow> strip raw \<noteq> [] \<Longrightarrow>
   contains needle (lower (strip raw)) \<Longrightarrow>
   poll_loop e conn cmd needle start_time timeout mac_output s =
     (After (Some (strip raw)), s\<lparr>clock := clock s + d\<rparr>,
      [SendCommandTiming cmd (Some raw)])"
  by (subst poll_loop.simps) (simp add: Let_def)

lemma poll_loop_again:
  "int (clock s) - int start_time < timeout \<Longrightarrow> \<not> is_set e s \<Longrightarrow>
   send_command_timing conn (clock s) cmd = Inr (raw, d) \<Longrightarrow> strip raw \<noteq> [] \<Longrightarrow>
   \<not> contains needle (lower (strip raw)) \<Longrightarrow>
   poll_loop e conn cmd needle start_time timeout mac_output s =
     (case poll_loop e conn cmd needle start_time timeout (Some (strip raw))
             (s\<lparr>clock := clock s + d + 2\<rparr>) of
        (x, s2, evs) \<Rightarrow> (x, s2, SendCommandTiming cmd (Some raw) # Sleep 2 # evs))"
  by (subst poll_loop.simps) (simp add: Let_def add.assoc)


lemma poll_loop_cases [consumes 1, case_names timeup stopped raised empty seen again]:
  assumes "poll_loop e conn cmd needle start_time timeout mac_output s = (x, s', evs)"
  obtains
    "\<not> int (clock s) - int start_time < timeout" "x = After mac_output" "s' = s" "evs = []"
  | "int (clock s) - int start_time < timeout" "is_set e s"
      "x = Return_None" "s' = s" "evs = []"
  | ex where "int (clock s) - int start_time < timeout" "\<not> is_set e s"
      "send_command_timing conn (clock s) cmd = Inl ex"
      "x = Raise ex" "s' = s" "evs = [SendCommandTiming cmd None]"
  | raw d where "int (clock s) - int start_time < timeout" "\<not> is_set e s"
      "send_command_timing conn (clock s) cmd = Inr (raw, d)" "strip raw = []"
      "x = Return_None" "s' = s\<lparr>clock := clock s + d\<rparr>"
      "evs = [SendCommandTiming cmd (Some raw)]"
  | raw d where "int (clock s) - int start_time < timeout" "\<not> is_set e s"
      "send_command_timing conn (clock s) cmd = Inr (raw, d)" "strip raw \<noteq> []"
      "contains needle (lower (strip raw))"
      "x = After (Some (strip raw))" "s' = s\<lparr>clock := clock s + d\<rparr>"
      "evs = [SendCommandTiming cmd (Some raw)]"
  | raw d evs' where "int (clock s) - int start_time < timeout" "\<not> is_set e s"
      "send_command_timing conn (clock s) cmd = Inr (raw, d)" "strip raw \<noteq> []"
      "\<not> contains needle (lower (strip raw))"
      "poll_loop e conn cmd needle start_time timeout (Some (strip raw))
         (s\<lparr>clock := clock s + d + 2\<rparr>) = (x, s', evs')"
      "evs = SendCommandTiming cmd (Some raw) # Sleep 2 # evs'"
proof (cases "int (clock s) - int start_time < timeout")
  case False
  have "(x, s', evs) = (After mac_output, s, [])"
    using assms poll_loop_timeup [OF False] by simp
  then show thesis using False that(1) by simp
next
  case time: True
  show thesis
  proof (cases "is_set e s")
    case True
    have "(x, s', evs) = (Return_None, s, [])"
      using assms poll_loop_stopped [OF time True] by simp
    then show thesis using time True that(2) by simp
  next
    case notset: False
    show thesis
    proof (cases "send_command_timing conn (clock s) cmd")
      case (Inl ex)
      have "(x, s', evs) = (Raise ex, s, [SendCommandTiming cmd None])"
        using assms poll_loop_raised [OF time notset Inl] by simp
      then show thesis using time notset Inl that(3) by simp
    next
      case (Inr p)
      obtain raw d where p: "p = (raw, d)" by (cases p)
      have sent: "send_command_timing conn (clock s) cmd = Inr (raw, d)"
        using Inr p by simp
      show thesis
      proof (cases "strip raw = []")
        case True
        have "(x, s', evs) =
            (Return_None, s\<lparr>clock := clock s + d\<rparr>, [SendCommandTiming cmd (Some raw)])"
          using assms poll_loop_empty [OF time notset sent True] by simp
        then show thesis using time notset sent True that(4) by simp
      next
        case nonempty: False
        show thesis
        proof (cases "contains needle (lower (strip raw))")
          case True
          have "(x, s', evs) =
              (After (Some (strip raw)), s\<lparr>clock := clock s + d\<rparr>,
               [SendCommandTiming cmd (Some raw)])"
            using assms poll_loop_seen [OF time notset sent nonempty True] by simp
          then show thesis using time notset sent nonempty True that(5) by simp
        next
          case False
          obtain x2 s2 evs2 where rec: "poll_loop e conn cmd needle start_time timeout
              (Some (strip raw)) (s\<lparr>clock := clock s + d + 2\<rparr>) = (x2, s2, evs2)"
            by (cases "poll_loop e conn cmd needle start_time timeout
              (Some (strip raw)) (s\<lparr>clock := clock s + d + 2\<rparr>)")
          have "(x, s', evs) = (x2, s2, SendCommandTiming cmd (Some raw) # Sleep 2 # evs2)"
            using assms poll_loop_again [OF time notset sent nonempty False] rec by simp
          then show thesis using time notset sent nonempty False rec that(6) by simp
        qed
      qed
    qed
  qed
qed


text \<open>Induction over the rounds of the loop.\<close>

lemma poll_loop_induct [consumes 1, case_names timeup stopped raised empty seen again]:
  assumes run: "poll_loop e conn cmd needle start_time timeout mac_output s = (x, s', evs)"
    and timeup: "\<And>mo s. \<not> int (clock s) - int start_time < timeout \<Longrightarrow> P mo s (After mo) s []"
    and stopped: "\<And>mo s. int (clock s) - int start_time < timeout \<Longrightarrow> is_set e s \<Longrightarrow>
        P mo s Return_None s []"
    and raised: "\<And>mo s ex. int (clock s) - int start_time < timeout \<Longrightarrow> \<not> is_set e s \<Longrightarrow>
        send_command_timing conn (clock s) cmd = Inl ex \<Longrightarrow>
        P mo s (Raise ex) s [SendCommandTiming cmd None]"
    and empty: "\<And>mo s raw d. int (clock s) - int start_time < timeout \<Longrightarrow> \<not> is_set e s \<Longrightarrow>
        send_command_timing conn (clock s) cmd = Inr (raw, d) \<Longrightarrow> strip raw = [] \<Longrightarrow>
        P mo s Return_None (s\<lparr>clock := clock s + d\<rparr>) [SendCommandTiming cmd (Some raw)]"
    and seen: "\<And>mo s raw d. int (clock s) - int start_time < timeout \<Longrightarrow> \<not> is_set e s \<Longrightarrow>
        send_command_timing conn (clock s) cmd = Inr (raw, d) \<Longrightarrow> strip raw \<noteq> [] \<Longrightarrow>
        contains needle (lower (strip raw)) \<Longrightarrow>
        P mo s (After (Some (strip raw))) (s\<lparr>clock := clock s + d\<rparr>)
          [SendCommandTiming cmd (Some raw)]"
    and again: "\<And>mo s raw d x s' evs'. int (clock s) - int start_time < timeout \<Longrightarrow>
        \<not> is_set e s \<Longrightarrow>
        send_command_timing conn (clock s) cmd = Inr (raw, d) \<Longrightarrow> strip raw \<noteq> [] \<Longrightarrow>
        \<not> contains needle (lower (strip raw)) \<Longrightarrow>
        poll_loop e conn cmd needle start_time timeout (Some (strip raw))
          (s\<lparr>clock := clock s + d + 2\<rparr>) = (x, s', evs') \<Longrightarrow>
        P (Some (strip raw)) (s\<lparr>clock := clock s + d + 2\<rparr>) x s' evs' \<Longrightarrow>
        P mo s x s' (SendCommandTiming cmd (Some raw) # Sleep 2 # evs')"
  shows "P mac_output s x s' evs"
  using run
proof (induction "nat (int start_time + timeout - int (clock s))"
       arbitrary: s mac_output x s' evs rule: less_induct)
  case less
  from less.prems show ?case
  proof (cases rule: poll_loop_cases)
    case timeup
    then show ?thesis using assms(2) by simp
  next
    case stopped
    then show ?thesis using assms(3) by simp
  next
    case (raised ex)
    then show ?thesis using assms(4) by simp
  next
    case (empty raw d)
    then show ?thesis using assms(5) by simp
  next
    case (seen raw d)
    then show ?thesis using assms(6) by simp
  next
    case (again raw d evs')
    have smaller: "nat (int start_time + timeout - int (clock (s\<lparr>clock := clock s + d + 2\<rparr>)))
        < nat (int start_time + timeout - int (clock s))"
      using again(1) by simp
    have "P (Some (strip raw)) (s\<lparr>clock := clock s + d + 2\<rparr>) x s' evs'"
      using less.hyps [OF smaller again(6)] .
    then have "P mac_output s x s' (SendCommandTiming cmd (Some raw) # Sleep 2 # evs')"
      using assms(7) again by blast
    then show ?thesis using again(7) by simp
  qed
qed

lemma poll_loop_state:
  assumes "poll_loop e conn cmd needle start_time timeout mac_output s = (x, s', evs)"
  shows "completed_devices s' = completed_devices s \<and> total_devices s' = total_devices s \<and>
    scan_start_time s' = scan_start_time s \<and> mac_found_event s' = mac_found_event s \<and>
    filter locking evs = [] \<and> filter connecting evs = [] \<and> filter reporting_error evs = []"
  using assms by (induction rule: poll_loop_induct) simp_all


text \<open>The text the loop leaves in \<^verbatim>\<open>mac_output\<close> was read from the session.\<close>

lemma poll_loop_after:
  assumes "poll_loop e conn cmd needle start_time timeout mac_output s = (x, s', evs)"
  shows "\<forall>out. x = After (Some out) \<longrightarrow>
    mac_output = Some out \<or>
    (\<exists>t raw d. send_command_timing conn t cmd = Inr (raw, d) \<and> out = strip raw)"
  using assms by (induction rule: poll_loop_induct) auto

section \<open>What the handlers leave alone\<close>

lemma handle_huawei_device_state:
  "handle_huawei_device e conn hostname ip search_mac timeout s = (r, s', evs) \<Longrightarrow>
   completed_devices s' = completed_devices s \<and> total_devices s' = total_devices s \<and>
   scan_start_time s' = scan_start_time s \<and>
   (mac_found_event s \<longrightarrow> mac_found_event s') \<and>
   (\<forall>m. r = Inr (Some m) \<longrightarrow> mac_found_event s') \<and>
   filter locking evs = [] \<and> filter connecting evs = [] \<and> filter reporting_error evs = []"
  unfolding handle_huawei_device_def Let_def
  by (auto split: if_splits option.splits prod.splits loop_exit.splits dest!: poll_loop_state)

lemma handle_alcatel_device_state:
  "handle_alcatel_device e conn hostname ip search_mac timeout s = (r, s', evs) \<Longrightarrow>
   completed_devices s' = completed_devices s \<and> total_devices s' = total_devices s \<and>
   scan_start_time s' = scan_start_time s \<and>
   (mac_found_event s \<longrightarrow> mac_found_event s') \<and>
   (\<forall>m. r = Inr (Some m) \<longrightarrow> mac_found_event s') \<and>
   filter locking evs = [] \<and> filter connecting evs = [] \<and> filter reporting_error evs = []"
  unfolding handle_alcatel_device_def Let_def
  by (auto split: if_splits option.splits prod.splits loop_exit.splits dest!: poll_loop_state)

lemma try_body_state:
  "try_body e dev vendor ip search_mac timeout s = (r, s', evs) \<Longrightarrow>
   completed_devices s' = completed_devices s \<and> total_devices s' = total_devices s \<and>
   scan_start_time s' = scan_start_time s \<and>
   (mac_found_event s \<longrightarrow> mac_found_event s') \<and>
   (\<forall>m. r = Inr (Some m) \<longrightarrow> mac_found_event s') \<and>
   filter locking evs = []"
  unfolding try_body_def ssh_connect_def Let_def
  by (auto split: if_splits option.splits prod.splits sum.splits
      dest!: handle_huawei_device_state handle_alcatel_device_state)

section \<open>One device, case by case\<close>

lemma count_device_result:
  obtains line where
    "count_device s = (None, s\<lparr>completed_devices := completed_devices s + 1\<rparr>,
                       LockAcquire # Increment # line @ [LockRelease])"
    and "filter locking line = []" and "filter connecting line = []"
    and "filter reporting_error line = []" and "filter polling line = []"
    and "filter empty_read line = []"
proof -
  obtain line where "print_progress (s\<lparr>completed_devices := completed_devices s + 1\<rparr>) = Inr line"
    and "filter locking line = []" and "filter connecting line = []"
    and "filter reporting_error line = []" and "filter polling line = []"
    and "filter empty_read line = []"
    using print_progress_no_error by blast
  then show thesis
    using that [of line] by (simp add: count_device_def Let_def)
qed

lemma skip_device_result:
  obtains line where
    "skip_device s = (Inr None, s\<lparr>completed_devices := completed_devices s + 1\<rparr>,
                      LockAcquire # Increment # line @ [LockRelease])"
    and "filter locking line = []" and "filter connecting line = []"
    and "filter reporting_error line = []" and "filter polling line = []"
    and "filter empty_read line = []"
proof -
  obtain line where
    "count_device s = (None, s\<lparr>completed_devices := completed_devices s + 1\<rparr>,
                       LockAcquire # Increment # line @ [LockRelease])"
    and "filter locking line = []" and "filter connecting line = []"
    and "filter reporting_error line = []" and "filter polling line = []"
    and "filter empty_read line = []"
    by (rule count_device_result)
  then show thesis
    using that [of line] by (simp add: skip_device_def)
qed

text \<open>The three ways through \<open>handle_device\<close>.\<close>

lemma handle_device_cases [consumes 1, case_names stopped skipped tried]:
  assumes run: "handle_device e device_info search_mac timeout s = (r, s', evs)"
  obtains
    "is_set e s" "r = Inr None" "s' = s" "evs = []"
  | "\<not> is_set e s" "malformed device_info" "skip_device s = (r, s', evs)"
  | part0 part1 outcome s1 evs1 line where
      "\<not> is_set e s" "\<not> malformed device_info"
      "split CHR '','' (strip device_info) = [part0, part1]"
      "try_body e \<lparr>device_type = lower (strip part1), host = strip part0,
                    username = USERNAME e, password = PASSWORD e\<rparr>
         (lower (strip part1)) (strip part0) search_mac timeout s = (outcome, s1, evs1)"
      "r = Inr (case outcome of Inl x \<Rightarrow> None | Inr v \<Rightarrow> v)"
      "s' = s1\<lparr>completed_devices := completed_devices s1 + 1\<rparr>"
      "evs = (case outcome of Inl x \<Rightarrow> evs1 @ [ErrorLine (strip part0) x] | Inr v \<Rightarrow> evs1) @
             LockAcquire # Increment # line @ [LockRelease]"
      "filter locking line = []" "filter connecting line = []"
      "filter reporting_error line = []" "filter polling line = []"
      "filter empty_read line = []"
proof (cases "is_set e s")
  case True
  with run have "r = Inr None" "s' = s" "evs = []"
    by (simp_all add: handle_device_def)
  with True show thesis by (rule that(1))
next
  case notset: False
  show thesis
  proof (cases "malformed device_info")
    case True
    then have "handle_device e device_info search_mac timeout s = skip_device s"
      using notset
      by (auto simp: handle_device_def malformed_def Let_def split: list.splits)
    with run have "skip_device s = (r, s', evs)" by simp
    with notset True show thesis by (rule that(2))
  next
    case False
    then obtain part0 part1 where parts: "split CHR '','' (strip device_info) = [part0, part1]"
      and vendor: "lower (strip part1) \<in> set [''huawei'', ''alcatel_aos'']"
      by (auto simp: malformed_def Let_def eval_nat_numeral length_Suc_conv)
    obtain outcome s1 evs1 where
      body: "try_body e \<lparr>device_type = lower (strip part1), host = strip part0,
                    username = USERNAME e, password = PASSWORD e\<rparr>
         (lower (strip part1)) (strip part0) search_mac timeout s = (outcome, s1, evs1)"
      using prod_cases3 by blast
    obtain line where
      count: "count_device s1 = (None, s1\<lparr>completed_devices := completed_devices s1 + 1\<rparr>,
                       LockAcquire # Increment # line @ [LockRelease])"
      and quiet: "filter locking line = []" "filter connecting line = []"
        "filter reporting_error line = []" "filter polling line = []"
        "filter empty_read line = []"
      by (rule count_device_result)
    have "handle_device e device_info search_mac timeout s =
        (Inr (case outcome of Inl x \<Rightarrow> None | Inr v \<Rightarrow> v),
         s1\<lparr>completed_devices := completed_devices s1 + 1\<rparr>,
         (case outcome of Inl x \<Rightarrow> evs1 @ [ErrorLine (strip part0) x] | Inr v \<Rightarrow> evs1) @
             LockAcquire # Increment # line @ [LockRelease])"
      using notset parts vendor body count
      by (auto simp: handle_device_def Let_def split: sum.splits)
    with run have "r = Inr (case outcome of Inl x \<Rightarrow> None | Inr v \<Rightarrow> v)"
      "s' = s1\<lparr>completed_devices := completed_devices s1 + 1\<rparr>"
      "evs = (case outcome of Inl x \<Rightarrow> evs1 @ [ErrorLine (strip part0) x] | Inr v \<Rightarrow> evs1) @
             LockAcquire # Increment # line @ [LockRelease]"
      by simp_all
    with notset False parts body show thesis using quiet by (rule that(3))
  qed
qed

section \<open>Counting completed devices\<close>

text \<open>
  C5, as the code has it. A poller that does not find the stop event set when it starts
  increments the counter exactly once, whatever its outcome, between taking and
  releasing the progress lock. (A poller that finds the event set returns at once and
  counts nothing.)
\<close>

theorem handle_device_counts_once:
  assumes "\<not> is_set e s"
    and "handle_device e device_info search_mac timeout s = (r, s', evs)"
  shows "completed_devices s' = completed_devices s + 1 \<and>
         filter locking evs = [LockAcquire, Increment, LockRelease]"
  using assms(2)
proof (cases rule: handle_device_cases)
  case stopped
  with assms(1) show ?thesis by simp
next
  case skipped
  obtain line where "skip_device s =
      (Inr None, s\<lparr>completed_devices := completed_devices s + 1\<rparr>,
       LockAcquire # Increment # line @ [LockRelease])"
    and "filter locking line = []"
    by (rule skip_device_result)
  with skipped(3) show ?thesis by auto
next
  case (tried part0 part1 outcome s1 evs1 line)
  from try_body_state [OF tried(4)]
  have "completed_devices s1 = completed_devices s" and "filter locking evs1 = []"
    by simp_all
  with tried show ?thesis by (cases outcome) simp_all
qed

theorem handle_device_counts_once_witness:
  "\<not> is_set (quiet_env (session_replying ''Total items: 0'')) scan_start \<and>
   handle_device (quiet_env (session_replying ''Total items: 0'')) ''10.0.0.1,huawei''
     ''aa:bb:cc:dd:ee:ff'' 1 scan_start =
   (Inr None, scan_start\<lparr>clock := 4, completed_devices := 1\<rparr>,
    [Connected ''10.0.0.1'', SetBasePrompt, FindPrompt,
     SendCommand ''screen-length 0 temporary'',
     SendCommandTiming ''display mac-address | include aabb-ccdd-eeff''
       (Some ''Total items: 0''),
     Sleep 2, Disconnect, LockAcquire, Increment, ProgressLine 1 3 ''00:00:08'',
     LockRelease]) \<and>
   completed_devices (scan_start\<lparr>clock := 4, completed_devices := 1\<rparr>) =
     completed_devices scan_start + 1"
proof -
  have idle: "\<not> is_set (quiet_env (session_replying ''Total items: 0'')) scan_start"
    by (simp add: is_set_def quiet_env_def scan_start_def)
  have run: "handle_device (quiet_env (session_replying ''Total items: 0'')) ''10.0.0.1,huawei''
     ''aa:bb:cc:dd:ee:ff'' 1 scan_start =
   (Inr None, scan_start\<lparr>clock := 4, completed_devices := 1\<rparr>,
    [Connected ''10.0.0.1'', SetBasePrompt, FindPrompt,
     SendCommand ''screen-length 0 temporary'',
     SendCommandTiming ''display mac-address | include aabb-ccdd-eeff''
       (Some ''Total items: 0''),
     Sleep 2, Disconnect, LockAcquire, Increment, ProgressLine 1 3 ''00:00:08'',
     LockRelease])"
    by (simp add: steps huawei_line sw1_prompt huawei_needle no_items eta_8)
  show ?thesis
    using idle run handle_device_counts_once [OF idle run] by simp
qed

theorem stopped_poller_not_counted:
  "is_set (quiet_env (session_replying ''Total items: 0''))
     (scan_start\<lparr>mac_found_event := True\<rparr>) \<and>
   handle_device (quiet_env (session_replying ''Total items: 0'')) ''10.0.0.1,huawei''
     ''aa:bb:cc:dd:ee:ff'' 60 (scan_start\<lparr>mac_found_event := True\<rparr>) =
   (Inr None, scan_start\<lparr>mac_found_event := True\<rparr>, []) \<and>
   completed_devices (scan_start\<lparr>mac_found_event := True\<rparr>) \<noteq>
     completed_devices (scan_start\<lparr>mac_found_event := True\<rparr>) + 1"
  by (simp add: handle_device_def is_set_def)

section \<open>Skipped lines, and sessions left open\<close>

text \<open>
  C8, as the code has it. For a malformed device-list line, a poller that does not find
  the stop event set when it starts returns \<^verbatim>\<open>None\<close> without opening a session and
  without an error line, and the only change to the state is that the counter is
  incremented once, under the lock.
\<close>

theorem malformed_line_skipped:
  assumes "\<not> is_set e s" and "malformed device_info"
    and "handle_device e device_info search_mac timeout s = (r, s', evs)"
  shows "r = Inr None \<and> s' = s\<lparr>completed_devices := completed_devices s + 1\<rparr> \<and>
         filter connecting evs = [] \<and> filter reporting_error evs = [] \<and>
         filter locking evs = [LockAcquire, Increment, LockRelease]"
  using assms(3)
proof (cases rule: handle_device_cases)
  case stopped
  with assms(1) show ?thesis by simp
next
  case skipped
  obtain line where "skip_device s =
      (Inr None, s\<lparr>completed_devices := completed_devices s + 1\<rparr>,
       LockAcquire # Increment # line @ [LockRelease])"
    and "filter locking line = []" and "filter connecting line = []"
    and "filter reporting_error line = []"
    by (rule skip_device_result)
  with skipped(3) show ?thesis by auto
next
  case (tried part0 part1 outcome s1 evs1 line)
  with assms(2) show ?thesis by simp
qed

lemma cisco_parts:
  "split CHR '','' (strip ''10.0.0.7,cisco_ios'') = [''10.0.0.7'', ''cisco_ios'']"
  "lower (strip ''cisco_ios'') = ''cisco_ios''"
  by (simp_all add: texts)

lemma cisco_line: "malformed ''10.0.0.7,cisco_ios''"
  by (simp add: malformed_def cisco_parts)

lemma three_fields: "malformed ''10.0.0.8,huawei,spare''"
  by (simp add: malformed_def texts)

lemma eta_0: "strftime_HMS 0 = ''00:00:00''"
  by (simp add: strftime_HMS_def two_digits_def char_of_def bit_Suc_0_iff)

theorem malformed_line_skipped_witness:
  "\<not> is_set (quiet_env session_refusing) scan_start \<and>
   malformed ''10.0.0.7,cisco_ios'' \<and>
   handle_device (quiet_env session_refusing) ''10.0.0.7,cisco_ios'' ''aa:bb:cc:dd:ee:ff'' 60
     scan_start =
   (Inr None, scan_start\<lparr>completed_devices := 1\<rparr>,
    [LockAcquire, Increment, ProgressLine 1 3 ''00:00:00'', LockRelease])"
proof -
  have idle: "\<not> is_set (quiet_env session_refusing) scan_start"
    by (simp add: is_set_def quiet_env_def scan_start_def)
  have run: "handle_device (quiet_env session_refusing) ''10.0.0.7,cisco_ios''
     ''aa:bb:cc:dd:ee:ff'' 60 scan_start =
   (Inr None, scan_start\<lparr>completed_devices := 1\<rparr>,
    [LockAcquire, Increment, ProgressLine 1 3 ''00:00:00'', LockRelease])"
    by (simp add: steps cisco_parts eta_0)
  show ?thesis
    using idle cisco_line run malformed_line_skipped [OF idle cisco_line run] by simp
qed

theorem malformed_line_after_stop_not_counted:
  "malformed ''10.0.0.8,huawei,spare'' \<and>
   handle_device (quiet_env session_refusing) ''10.0.0.8,huawei,spare'' ''aa:bb:cc:dd:ee:ff'' 60
     (scan_start\<lparr>mac_found_event := True\<rparr>) =
   (Inr None, scan_start\<lparr>mac_found_event := True\<rparr>, []) \<and>
   completed_devices (scan_start\<lparr>mac_found_event := True\<rparr>) \<noteq>
     completed_devices (scan_start\<lparr>mac_found_event := True\<rparr>) + 1"
  using three_fields by (simp add: handle_device_def is_set_def)

text \<open>
  C6. A session that was opened should be released on every way out of the poller. When
  the handler raises (here the paging command does), \<open>handle_device\<close> reports the error
  and counts the device, but \<^verbatim>\<open>conn.disconnect()\<close> is not called: it stands after the
  handler call inside the \<^verbatim>\<open>try\<close>, not in the \<^verbatim>\<open>finally\<close>.
\<close>

theorem session_not_released_on_error:
  "handle_device (quiet_env session_refusing) ''10.0.0.1,huawei'' ''aa:bb:cc:dd:ee:ff'' 60
     scan_start =
   (Inr None, scan_start\<lparr>clock := 1, completed_devices := 1\<rparr>,
    [Connected ''10.0.0.1'', SetBasePrompt, FindPrompt,
     SendCommand ''screen-length 0 temporary'',
     ErrorLine ''10.0.0.1'' (DeviceError ''Pattern not detected''),
     LockAcquire, Increment, ProgressLine 1 3 ''00:00:02'', LockRelease]) \<and>
   count_list
     [Connected ''10.0.0.1'', SetBasePrompt, FindPrompt,
      SendCommand ''screen-length 0 temporary'',
      ErrorLine ''10.0.0.1'' (DeviceError ''Pattern not detected''),
      LockAcquire, Increment, ProgressLine 1 3 ''00:00:02'', LockRelease] Disconnect = 0"
proof -
  have eta: "strftime_HMS 2 = ''00:00:02''"
    by (simp add: strftime_HMS_def two_digits_def char_of_def bit_Suc_0_iff)
  show ?thesis
    by (simp add: steps huawei_line sw1_prompt eta)
qed

section \<open>The ways through the vendor handlers\<close>

text \<open>The ways through the two vendor handlers.\<close>

lemma handle_huawei_device_cases
  [consumes 1, case_names stopped paging returned raised unbound unseen norow found]:
  assumes "handle_huawei_device e conn hostname ip search_mac timeout s = (r, s', evs)"
  obtains
    "is_set e s" "r = Inr None" "s' = s" "evs = []"
  | ex where "\<not> is_set e s" "send_command conn ''screen-length 0 temporary'' = Some ex"
      "r = Inl ex" "s' = s" "evs = [SendCommand ''screen-length 0 temporary'']"
  | evs' where "\<not> is_set e s"
      "poll_loop e conn (''display mac-address | include '' @ lower (mac_to_huawei_format search_mac)) (lower (mac_to_huawei_format search_mac)) (clock s) timeout None s =
         (Return_None, s', evs')"
      "r = Inr None" "evs = SendCommand ''screen-length 0 temporary'' # evs'"
  | ex evs' where "\<not> is_set e s"
      "poll_loop e conn (''display mac-address | include '' @ lower (mac_to_huawei_format search_mac)) (lower (mac_to_huawei_format search_mac)) (clock s) timeout None s =
         (Raise ex, s', evs')"
      "r = Inl ex" "evs = SendCommand ''screen-length 0 temporary'' # evs'"
  | evs' where "\<not> is_set e s"
      "poll_loop e conn (''display mac-address | include '' @ lower (mac_to_huawei_format search_mac)) (lower (mac_to_huawei_format search_mac)) (clock s) timeout None s =
         (After None, s', evs')"
      "r = Inl UnboundLocalError" "evs = SendCommand ''screen-length 0 temporary'' # evs'"
  | out evs' where "\<not> is_set e s"
      "poll_loop e conn (''display mac-address | include '' @ lower (mac_to_huawei_format search_mac)) (lower (mac_to_huawei_format search_mac)) (clock s) timeout None s =
         (After (Some out), s', evs')"
      "\<not> contains (lower (mac_to_huawei_format search_mac)) (lower out)"
      "r = Inr None" "evs = SendCommand ''screen-length 0 temporary'' # evs'"
  | out evs' where "\<not> is_set e s"
      "poll_loop e conn (''display mac-address | include '' @ lower (mac_to_huawei_format search_mac)) (lower (mac_to_huawei_format search_mac)) (clock s) timeout None s =
         (After (Some out), s', evs')"
      "contains (lower (mac_to_huawei_format search_mac)) (lower out)"
      "huawei_rows (splitlines out) ip hostname = None"
      "r = Inr None" "evs = SendCommand ''screen-length 0 temporary'' # evs'"
  | out evs' s1 m where "\<not> is_set e s"
      "poll_loop e conn (''display mac-address | include '' @ lower (mac_to_huawei_format search_mac)) (lower (mac_to_huawei_format search_mac)) (clock s) timeout None s =
         (After (Some out), s1, evs')"
      "contains (lower (mac_to_huawei_format search_mac)) (lower out)"
      "huawei_rows (splitlines out) ip hostname = Some m"
      "r = Inr (Some m)" "s' = s1\<lparr>mac_found_event := True\<rparr>"
      "evs = SendCommand ''screen-length 0 temporary'' # evs' @ [SetEvent]"
  using assms unfolding handle_huawei_device_def Let_def
  by (simp split: if_splits option.splits prod.splits loop_exit.splits)

lemma handle_alcatel_device_cases
  [consumes 1, case_names stopped paging returned raised unbound unseen norow found]:
  assumes "handle_alcatel_device e conn hostname ip search_mac timeout s = (r, s', evs)"
  obtains
    "is_set e s" "r = Inr None" "s' = s" "evs = []"
  | ex where "\<not> is_set e s" "send_command conn ''environment no more'' = Some ex"
      "r = Inl ex" "s' = s" "evs = [SendCommand ''environment no more'']"
  | evs' where "\<not> is_set e s"
      "poll_loop e conn (''show service fdb-mac | match '' @ lower search_mac) (lower search_mac) (clock s) timeout None s =
         (Return_None, s', evs')"
      "r = Inr None" "evs = SendCommand ''environment no more'' # evs'"
  | ex evs' where "\<not> is_set e s"
      "poll_loop e conn (''show service fdb-mac | match '' @ lower search_mac) (lower search_mac) (clock s) timeout None s =
         (Raise ex, s', evs')"
      "r = Inl ex" "evs = SendCommand ''environment no more'' # evs'"
  | evs' where "\<not> is_set e s"
      "poll_loop e conn (''show service fdb-mac | match '' @ lower search_mac) (lower search_mac) (clock s) timeout None s =
         (After None, s', evs')"
      "r = Inl UnboundLocalError" "evs = SendCommand ''environment no more'' # evs'"
  | out evs' where "\<not> is_set e s"
      "poll_loop e conn (''show service fdb-mac | match '' @ lower search_mac) (lower search_mac) (clock s) timeout None s =
         (After (Some out), s', evs')"
      "\<not> contains (lower search_mac) (lower out)"
      "r = Inr None" "evs = SendCommand ''environment no more'' # evs'"
  | out evs' where "\<not> is_set e s"
      "poll_loop e conn (''show service fdb-mac | match '' @ lower search_mac) (lower search_mac) (clock s) timeout None s =
         (After (Some out), s', evs')"
      "contains (lower search_mac) (lower out)"
      "alcatel_rows (splitlines out) ip hostname = None"
      "r = Inr None" "evs = SendCommand ''environment no more'' # evs'"
  | out evs' s1 m where "\<not> is_set e s"
      "poll_loop e conn (''show service fdb-mac | match '' @ lower search_mac) (lower search_mac) (clock s) timeout None s =
         (After (Some out), s1, evs')"
      "contains (lower search_mac) (lower out)"
      "alcatel_rows (splitlines out) ip hostname = Some m"
      "r = Inr (Some m)" "s' = s1\<lparr>mac_found_event := True\<rparr>"
      "evs = SendCommand ''environment no more'' # evs' @ [SetEvent]"
  using assms unfolding handle_alcatel_device_def Let_def
  by (simp split: if_splits option.splits prod.splits loop_exit.splits)




section \<open>Finding an event in a trace\<close>



section \<open>The ways through the try body\<close>




section \<open>Empty output ends the polling\<close>

lemma alcatel_line:
  "split CHR '','' (strip ''10.0.0.2,alcatel_aos'') = [''10.0.0.2'', ''alcatel_aos'']"
  "strip ''10.0.0.2'' = ''10.0.0.2''" "lower (strip ''alcatel_aos'') = ''alcatel_aos''"
  by (simp_all add: texts)

lemma target_lower: "lower ''aa:bb:cc:dd:ee:ff'' = ''aa:bb:cc:dd:ee:ff''"
  by (simp add: texts)


lemma eta_4: "strftime_HMS 4 = ''00:00:04''"
  by (simp add: strftime_HMS_def two_digits_def char_of_def bit_Suc_0_iff)



section \<open>The stop event and the coordinator\<close>

lemma lag_row_parsed:
  "alcatel_rows
     (splitlines ''100  AA:BB:CC:DD:EE:FF sap:lag-1:100 L/300 01/02/24 10:00:00'')
     ip hostname =
   Some \<lparr>rec_mac = ''AA:BB:CC:DD:EE:FF'', rec_interface = ''lag-1:100'', rec_ip = ip,
         rec_hostname = hostname, rec_attribute1 = ''Service=100'',
         rec_attribute2 = ''LastSeen=01/02/24 10:00:00''\<rparr>"
  by (simp add: texts patterns)

lemma lag_row_seen:
  "strip ''100  AA:BB:CC:DD:EE:FF sap:lag-1:100 L/300 01/02/24 10:00:00'' =
     ''100  AA:BB:CC:DD:EE:FF sap:lag-1:100 L/300 01/02/24 10:00:00''"
  "contains ''aa:bb:cc:dd:ee:ff''
     (lower ''100  AA:BB:CC:DD:EE:FF sap:lag-1:100 L/300 01/02/24 10:00:00'')"
  "\<not> contains ''aa-bb-cc-dd-ee-ff''
     (lower ''100  AA:BB:CC:DD:EE:FF sap:lag-1:100 L/300 01/02/24 10:00:00'')"
  by (simp_all add: texts)

lemma lag_row_found:
  "handle_device
     (quiet_env (session_replying
        ''100  AA:BB:CC:DD:EE:FF sap:lag-1:100 L/300 01/02/24 10:00:00''))
     ''10.0.0.2,alcatel_aos'' ''aa:bb:cc:dd:ee:ff'' 60 scan_start =
   (Inr (Some \<lparr>rec_mac = ''AA:BB:CC:DD:EE:FF'', rec_interface = ''lag-1:100'',
                rec_ip = ''10.0.0.2'', rec_hostname = ''sw1'',
                rec_attribute1 = ''Service=100'',
                rec_attribute2 = ''LastSeen=01/02/24 10:00:00''\<rparr>),
    scan_start\<lparr>clock := 2, mac_found_event := True, completed_devices := 1\<rparr>,
    [Connected ''10.0.0.2'', SetBasePrompt, FindPrompt, SendCommand ''environment no more'',
     SendCommandTiming ''show service fdb-mac | match aa:bb:cc:dd:ee:ff''
       (Some ''100  AA:BB:CC:DD:EE:FF sap:lag-1:100 L/300 01/02/24 10:00:00''),
     SetEvent, Disconnect, LockAcquire, Increment, ProgressLine 1 3 ''00:00:04'',
     LockRelease])"
  by (simp add: steps alcatel_line sw1_prompt target_lower lag_row_seen lag_row_parsed eta_4)

text \<open>The loop of \<open>main\<close> stops at the first record.\<close>

lemma as_completed_loop_first:
  "list_all (\<lambda>c. \<not> is_found c) pre \<Longrightarrow>
   as_completed_loop (pre @ (w, Inr (Some m)) # post) ev None = (Some m, True)"
proof (induction pre arbitrary: ev)
  case Nil
  show ?case by simp
next
  case (Cons c pre)
  obtain w' outcome where c: "c = (w', outcome)" by (cases c)
  show ?case
  proof (cases outcome)
    case (Inl x)
    with Cons c show ?thesis by simp
  next
    case (Inr result)
    with Cons c show ?thesis by (cases result) simp_all
  qed
qed

lemma as_completed_loop_none:
  "list_all (\<lambda>c. \<not> is_found c) cs \<Longrightarrow> fst (as_completed_loop cs ev None) = None"
proof (induction cs arbitrary: ev)
  case Nil
  show ?case by simp
next
  case (Cons c cs)
  obtain w' outcome where c: "c = (w', outcome)" by (cases c)
  show ?case
  proof (cases outcome)
    case (Inl x)
    with Cons c show ?thesis by simp
  next
    case (Inr result)
    with Cons c show ?thesis by (cases result) simp_all
  qed
qed

lemma as_completed_loop_latch:
  "as_completed_loop cs ev found = (found', ev') \<Longrightarrow> ev \<Longrightarrow> ev'"
proof (induction cs arbitrary: ev found)
  case Nil
  then show ?case by simp
next
  case (Cons c cs)
  obtain w' outcome where c: "c = (w', outcome)" by (cases c)
  show ?case
  proof (cases outcome)
    case (Inl x)
    with Cons c show ?thesis by (auto simp: Let_def split: if_splits)
  next
    case (Inr result)
    with Cons c show ?thesis by (cases result) (auto simp: Let_def split: if_splits)
  qed
qed

lemma first_found:
  "list_ex is_found cs \<Longrightarrow>
   \<exists>pre w m post. cs = pre @ (w, Inr (Some m)) # post \<and> list_all (\<lambda>c. \<not> is_found c) pre"
proof (induction cs)
  case Nil
  then show ?case by simp
next
  case (Cons c cs)
  show ?case
  proof (cases "is_found c")
    case True
    then obtain w m where "c = (w, Inr (Some m))"
      by (cases c rule: is_found.cases) auto
    then have "c # cs = [] @ (w, Inr (Some m)) # cs \<and> list_all (\<lambda>c. \<not> is_found c) []"
      by simp
    then show ?thesis by blast
  next
    case False
    with Cons.prems have "list_ex is_found cs" by simp
    with Cons.IH obtain pre w m post where "cs = pre @ (w, Inr (Some m)) # post"
      and "list_all (\<lambda>c. \<not> is_found c) pre"
      by blast
    with False have "c # cs = (c # pre) @ (w, Inr (Some m)) # post \<and>
        list_all (\<lambda>c. \<not> is_found c) (c # pre)"
      by simp
    then show ?thesis by blast
  qed
qed

lemma handle_device_latch:
  assumes "handle_device e device_info search_mac timeout s = (r, s', evs)"
  shows "(mac_found_event s \<longrightarrow> mac_found_event s') \<and>
         (\<forall>m. r = Inr (Some m) \<longrightarrow> mac_found_event s')"
  using assms
proof (cases rule: handle_device_cases)
  case stopped
  then show ?thesis by simp
next
  case skipped
  obtain line where "skip_device s =
      (Inr None, s\<lparr>completed_devices := completed_devices s + 1\<rparr>,
       LockAcquire # Increment # line @ [LockRelease])"
    by (rule skip_device_result)
  with skipped(3) show ?thesis by auto
next
  case (tried part0 part1 outcome s1 evs1 line)
  from try_body_state [OF tried(4)] tried(5,6) show ?thesis
    by (cases outcome) auto
qed

text \<open>
  What holds of the stop event and of the loop of \<open>main\<close>. A poller never clears
  \<open>mac_found_event\<close> and leaves it set whenever it returns a record; the loop of \<open>main\<close>
  never clears it either. Whatever completes after the first record that a future
  returns, \<open>main\<close> reports that record, and it reports not-found only when no future
  returned a record.
\<close>

theorem found_is_latched:
  "(handle_device e device_info search_mac timeout s = (r, s', evs) \<longrightarrow>
      (mac_found_event s \<longrightarrow> mac_found_event s') \<and>
      (\<forall>m. r = Inr (Some m) \<longrightarrow> mac_found_event s')) \<and>
   (as_completed_loop cs ev found = (found', ev') \<longrightarrow> ev \<longrightarrow> ev') \<and>
   (list_all (\<lambda>c. \<not> is_found c) pre \<longrightarrow>
      main arg (pre @ (w, Inr (Some hit)) # post) = (Found hit, True)) \<and>
   (list_ex is_found cs \<longrightarrow> (\<exists>m. main arg cs = (Found m, True))) \<and>
   (list_all (\<lambda>c. \<not> is_found c) cs \<longrightarrow>
      fst (main arg cs) = NotFoundAnywhere (upper (lower arg)))"
proof (intro conjI impI)
  assume "handle_device e device_info search_mac timeout s = (r, s', evs)"
  then have latch: "(mac_found_event s \<longrightarrow> mac_found_event s') \<and>
      (\<forall>m. r = Inr (Some m) \<longrightarrow> mac_found_event s')"
    by (rule handle_device_latch)
  { assume "mac_found_event s" with latch show "mac_found_event s'" by simp }
  from latch show "\<forall>m. r = Inr (Some m) \<longrightarrow> mac_found_event s'" by simp
next
  assume "as_completed_loop cs ev found = (found', ev')" and ev
  then show ev' by (rule as_completed_loop_latch)
next
  assume "list_all (\<lambda>c. \<not> is_found c) pre"
  then show "main arg (pre @ (w, Inr (Some hit)) # post) = (Found hit, True)"
    by (simp add: main_def as_completed_loop_first)
next
  assume "list_ex is_found cs"
  then obtain pre w m post where "cs = pre @ (w, Inr (Some m)) # post"
    and "list_all (\<lambda>c. \<not> is_found c) pre"
    using first_found by blast
  then have "main arg cs = (Found m, True)"
    by (simp add: main_def as_completed_loop_first)
  then show "\<exists>m. main arg cs = (Found m, True)" ..
next
  assume "list_all (\<lambda>c. \<not> is_found c) cs"
  then have "fst (as_completed_loop cs False None) = None"
    by (rule as_completed_loop_none)
  then show "fst (main arg cs) = NotFoundAnywhere (upper (lower arg))"
    by (cases "as_completed_loop cs False None") (simp add: main_def scan_target_def)
qed

lemma target_upper: "upper (lower ''AA:BB:CC:DD:EE:FF'') = ''AA:BB:CC:DD:EE:FF''"
  by (simp add: texts)

theorem found_is_latched_witness:
  "mac_found_event
     (fst (snd (handle_device
        (quiet_env (session_replying
           ''100  AA:BB:CC:DD:EE:FF sap:lag-1:100 L/300 01/02/24 10:00:00''))
        ''10.0.0.2,alcatel_aos'' ''aa:bb:cc:dd:ee:ff'' 60 scan_start))) \<and>
   mac_found_event
     (fst (snd (handle_device (quiet_env session_refusing) ''10.0.0.1,huawei''
        ''aa:bb:cc:dd:ee:ff'' 60 (scan_start\<lparr>mac_found_event := True\<rparr>)))) \<and>
   main ''AA:BB:CC:DD:EE:FF''
     [(False, Inr None), (False, Inl (DeviceError ''timed out'')),
      (True, Inr (Some \<lparr>rec_mac = ''AA:BB:CC:DD:EE:FF'', rec_interface = ''lag-1:100'',
                rec_ip = ''10.0.0.2'', rec_hostname = ''sw1'',
                rec_attribute1 = ''Service=100'',
                rec_attribute2 = ''LastSeen=01/02/24 10:00:00''\<rparr>)),
      (True, Inr None)] =
   (Found \<lparr>rec_mac = ''AA:BB:CC:DD:EE:FF'', rec_interface = ''lag-1:100'',
                rec_ip = ''10.0.0.2'', rec_hostname = ''sw1'',
                rec_attribute1 = ''Service=100'',
                rec_attribute2 = ''LastSeen=01/02/24 10:00:00''\<rparr>, True) \<and>
   fst (main ''AA:BB:CC:DD:EE:FF''
     [(False, Inr None), (False, Inl (DeviceError ''timed out''))]) =
   NotFoundAnywhere ''AA:BB:CC:DD:EE:FF''"
proof -
  let ?hit = "\<lparr>rec_mac = ''AA:BB:CC:DD:EE:FF'', rec_interface = ''lag-1:100'',
                rec_ip = ''10.0.0.2'', rec_hostname = ''sw1'',
                rec_attribute1 = ''Service=100'',
                rec_attribute2 = ''LastSeen=01/02/24 10:00:00''\<rparr>"
  let ?pre = "[(False, Inr None), (False, Inl (DeviceError ''timed out''))]
              :: (bool \<times> (exn + match_record option)) list"
  let ?post = "[(True, Inr None)] :: (bool \<times> (exn + match_record option)) list"
  have quiet: "list_all (\<lambda>c. \<not> is_found c) ?pre"
    by simp
  have loud: "list_ex is_found (?pre @ (True, Inr (Some ?hit)) # ?post)"
    by simp
  have stopped: "handle_device (quiet_env session_refusing) ''10.0.0.1,huawei''
        ''aa:bb:cc:dd:ee:ff'' 60 (scan_start\<lparr>mac_found_event := True\<rparr>) =
      (Inr None, scan_start\<lparr>mac_found_event := True\<rparr>, [])"
    by (simp add: handle_device_def is_set_def)
  have looped: "as_completed_loop ?pre True None = (None, True)"
    by simp
  note found = found_is_latched
    [where e = "quiet_env (session_replying
           ''100  AA:BB:CC:DD:EE:FF sap:lag-1:100 L/300 01/02/24 10:00:00'')"
       and device_info = "''10.0.0.2,alcatel_aos''" and search_mac = "''aa:bb:cc:dd:ee:ff''"
       and timeout = 60 and s = scan_start and r = "Inr (Some ?hit)"
       and s' = "scan_start\<lparr>clock := 2, mac_found_event := True, completed_devices := 1\<rparr>"
       and evs = "[Connected ''10.0.0.2'', SetBasePrompt, FindPrompt,
         SendCommand ''environment no more'',
         SendCommandTiming ''show service fdb-mac | match aa:bb:cc:dd:ee:ff''
           (Some ''100  AA:BB:CC:DD:EE:FF sap:lag-1:100 L/300 01/02/24 10:00:00''),
         SetEvent, Disconnect, LockAcquire, Increment, ProgressLine 1 3 ''00:00:04'',
         LockRelease]"
       and pre = ?pre and w = True and hit = ?hit and post = ?post
       and arg = "''AA:BB:CC:DD:EE:FF''"
       and cs = "?pre @ (True, Inr (Some ?hit)) # ?post"]
  note none = found_is_latched
    [where e = "quiet_env session_refusing" and device_info = "''10.0.0.1,huawei''"
       and search_mac = "''aa:bb:cc:dd:ee:ff''" and timeout = 60
       and s = "scan_start\<lparr>mac_found_event := True\<rparr>" and r = "Inr None"
       and s' = "scan_start\<lparr>mac_found_event := True\<rparr>" and evs = "[]"
       and cs = ?pre and ev = True and found = None and found' = None and ev' = True
       and arg = "''AA:BB:CC:DD:EE:FF''"]
  show ?thesis
    using found none quiet loud looped lag_row_found stopped target_upper by simp
qed

section \<open>Where a returned record comes from\<close>

text \<open>The record comes from the first line on which the row pattern is found.\<close>

lemma alcatel_rows_first:
  "alcatel_rows lines ip hostname = Some m \<Longrightarrow>
   \<exists>before line after g. lines = before @ line # after \<and>
     list_all (\<lambda>l. search True alcatel_pattern l = None) before \<and>
     search True alcatel_pattern line = Some g \<and>
     rec_mac m = upper (replace CHR ''-'' '':'' (group g ''mac''))"
proof (induction lines)
  case Nil
  then show ?case by simp
next
  case (Cons l ls)
  show ?case
  proof (cases "search True alcatel_pattern l")
    case None
    with Cons obtain before line after g where "ls = before @ line # after"
      and "list_all (\<lambda>l. search True alcatel_pattern l = None) before"
      and "search True alcatel_pattern line = Some g"
      and "rec_mac m = upper (replace CHR ''-'' '':'' (group g ''mac''))"
      by auto
    with None have "l # ls = (l # before) @ line # after \<and>
        list_all (\<lambda>l. search True alcatel_pattern l = None) (l # before) \<and>
        search True alcatel_pattern line = Some g \<and>
        rec_mac m = upper (replace CHR ''-'' '':'' (group g ''mac''))"
      by simp
    then show ?thesis by blast
  next
    case (Some g)
    with Cons.prems have "l # ls = [] @ l # ls \<and>
        list_all (\<lambda>l. search True alcatel_pattern l = None) [] \<and>
        search True alcatel_pattern l = Some g \<and>
        rec_mac m = upper (replace CHR ''-'' '':'' (group g ''mac''))"
      by (auto simp: Let_def)
    then show ?thesis by blast
  qed
qed

lemma huawei_rows_first:
  "huawei_rows lines ip hostname = Some m \<Longrightarrow>
   \<exists>before line after g. lines = before @ line # after \<and>
     list_all (\<lambda>l. search True huawei_pattern l = None) before \<and>
     search True huawei_pattern line = Some g \<and>
     rec_mac m = huawei_mac_to_standard (upper (group g ''mac''))"
proof (induction lines)
  case Nil
  then show ?case by simp
next
  case (Cons l ls)
  show ?case
  proof (cases "search True huawei_pattern l")
    case None
    with Cons obtain before line after g where "ls = before @ line # after"
      and "list_all (\<lambda>l. search True huawei_pattern l = None) before"
      and "search True huawei_pattern line = Some g"
      and "rec_mac m = huawei_mac_to_standard (upper (group g ''mac''))"
      by auto
    with None have "l # ls = (l # before) @ line # after \<and>
        list_all (\<lambda>l. search True huawei_pattern l = None) (l # before) \<and>
        search True huawei_pattern line = Some g \<and>
        rec_mac m = huawei_mac_to_standard (upper (group g ''mac''))"
      by simp
    then show ?thesis by blast
  next
    case (Some g)
    with Cons.prems have "l # ls = [] @ l # ls \<and>
        list_all (\<lambda>l. search True huawei_pattern l = None) [] \<and>
        search True huawei_pattern l = Some g \<and>
        rec_mac m = huawei_mac_to_standard (upper (group g ''mac''))"
      by (auto simp: Let_def)
    then show ?thesis by blast
  qed
qed

lemma alcatel_found:
  assumes "handle_alcatel_device e conn hostname ip search_mac timeout s = (Inr (Some m), s', evs)"
  shows "\<exists>t raw d. send_command_timing conn t
             (''show service fdb-mac | match '' @ lower search_mac) = Inr (raw, d) \<and>
           contains (lower search_mac) (lower (strip raw)) \<and>
           alcatel_rows (splitlines (strip raw)) ip hostname = Some m"
  using assms
proof (cases rule: handle_alcatel_device_cases)
  case (found out evs' s1 m')
  from poll_loop_after [OF found(2)] obtain t raw d where
    "send_command_timing conn t (''show service fdb-mac | match '' @ lower search_mac) =
       Inr (raw, d)" and "out = strip raw"
    by auto
  with found(3,4,5) show ?thesis by auto
qed simp_all

lemma huawei_found:
  assumes "handle_huawei_device e conn hostname ip search_mac timeout s = (Inr (Some m), s', evs)"
  shows "\<exists>t raw d. send_command_timing conn t
             (''display mac-address | include '' @ lower (mac_to_huawei_format search_mac)) =
             Inr (raw, d) \<and>
           contains (lower (mac_to_huawei_format search_mac)) (lower (strip raw)) \<and>
           huawei_rows (splitlines (strip raw)) ip hostname = Some m"
  using assms
proof (cases rule: handle_huawei_device_cases)
  case (found out evs' s1 m')
  from poll_loop_after [OF found(2)] obtain t raw d where
    "send_command_timing conn t
       (''display mac-address | include '' @ lower (mac_to_huawei_format search_mac)) =
       Inr (raw, d)" and "out = strip raw"
    by auto
  with found(3,4,5) show ?thesis by auto
qed simp_all

section \<open>The first matching row\<close>

lemma huawei_row_parsed:
  "huawei_rows (splitlines ''0abc-1234-5678   10   GE0/0/1   dynamic'') ip hostname =
   Some \<lparr>rec_mac = ''0A:BC:12:34:56:78'', rec_interface = ''GE0/0/1'', rec_ip = ip,
         rec_hostname = hostname, rec_attribute1 = ''VLAN/VSI=10'',
         rec_attribute2 = ''Type=dynamic''\<rparr>"
  by (simp add: texts patterns huawei_mac_to_standard_def)

lemma huawei_row_seen:
  "lower (mac_to_huawei_format ''0A:BC:12:34:56:78'') = ''0abc-1234-5678''"
  "strip ''0abc-1234-5678   10   GE0/0/1   dynamic'' =
     ''0abc-1234-5678   10   GE0/0/1   dynamic''"
  "contains ''0abc-1234-5678'' (lower ''0abc-1234-5678   10   GE0/0/1   dynamic'')"
  by (simp_all add: mac_to_huawei_format_def ishex_def texts)

lemma two_rows_parsed:
  "alcatel_rows
     (splitlines (''100  11:22:33:44:55:66 sap:lag-1:100 L/300 01/02/24 10:00:00'' @
        [CHR 0x0A] @ ''200  AA:BB:CC:DD:EE:FF sap:lag-2:200 L/10 01/02/24 10:00:05''))
     ip hostname =
   Some \<lparr>rec_mac = ''11:22:33:44:55:66'', rec_interface = ''lag-1:100'', rec_ip = ip,
         rec_hostname = hostname, rec_attribute1 = ''Service=100'',
         rec_attribute2 = ''LastSeen=01/02/24 10:00:00''\<rparr>"
  by (simp add: texts patterns)

lemma two_rows_seen:
  "strip (''100  11:22:33:44:55:66 sap:lag-1:100 L/300 01/02/24 10:00:00'' @
        [CHR 0x0A] @ ''200  AA:BB:CC:DD:EE:FF sap:lag-2:200 L/10 01/02/24 10:00:05'') =
   ''100  11:22:33:44:55:66 sap:lag-1:100 L/300 01/02/24 10:00:00'' @
        [CHR 0x0A] @ ''200  AA:BB:CC:DD:EE:FF sap:lag-2:200 L/10 01/02/24 10:00:05''"
  "contains ''aa:bb:cc:dd:ee:ff''
     (lower (''100  11:22:33:44:55:66 sap:lag-1:100 L/300 01/02/24 10:00:00'' @
        [CHR 0x0A] @ ''200  AA:BB:CC:DD:EE:FF sap:lag-2:200 L/10 01/02/24 10:00:05''))"
  by (simp_all add: texts)

lemmas handler_steps = handle_huawei_device_def handle_alcatel_device_def is_set_def
  poll_loop.simps Let_def quiet_env_def session_replying_def scan_start_def

text \<open>
  C4 says that the MAC of a returned record is the target (in upper case, with
  colons). The handlers do not compare a row with the target: here the output has the
  target in its second row, and the record returned is that of the first.
\<close>

theorem first_row_is_returned:
  "handle_alcatel_device
     (quiet_env (session_replying
        (''100  11:22:33:44:55:66 sap:lag-1:100 L/300 01/02/24 10:00:00'' @
         [CHR 0x0A] @ ''200  AA:BB:CC:DD:EE:FF sap:lag-2:200 L/10 01/02/24 10:00:05'')))
     (session_replying
        (''100  11:22:33:44:55:66 sap:lag-1:100 L/300 01/02/24 10:00:00'' @
         [CHR 0x0A] @ ''200  AA:BB:CC:DD:EE:FF sap:lag-2:200 L/10 01/02/24 10:00:05''))
     ''sw1'' ''10.0.0.2'' ''aa:bb:cc:dd:ee:ff'' 60 scan_start =
   (Inr (Some \<lparr>rec_mac = ''11:22:33:44:55:66'', rec_interface = ''lag-1:100'',
                rec_ip = ''10.0.0.2'', rec_hostname = ''sw1'',
                rec_attribute1 = ''Service=100'',
                rec_attribute2 = ''LastSeen=01/02/24 10:00:00''\<rparr>),
    scan_start\<lparr>clock := 1, mac_found_event := True\<rparr>,
    [SendCommand ''environment no more'',
     SendCommandTiming ''show service fdb-mac | match aa:bb:cc:dd:ee:ff''
       (Some (''100  11:22:33:44:55:66 sap:lag-1:100 L/300 01/02/24 10:00:00'' @
         [CHR 0x0A] @ ''200  AA:BB:CC:DD:EE:FF sap:lag-2:200 L/10 01/02/24 10:00:05'')),
     SetEvent]) \<and>
   ''11:22:33:44:55:66'' \<noteq> upper ''aa:bb:cc:dd:ee:ff''"
proof -
  have "upper ''aa:bb:cc:dd:ee:ff'' = ''AA:BB:CC:DD:EE:FF''"
    by (simp add: texts)
  then show ?thesis
    using two_rows_parsed two_rows_seen
    by (simp add: handler_steps target_lower)
qed

section \<open>Case and separators of the target\<close>

lemma ishex_lower_char: "ishex (lower_char c) = ishex c"
  by (auto simp: ishex_def in_set_def lower_char_def isupper_def ord_def)

lemma lower_filter_ishex: "lower (filter ishex a) = filter ishex (lower a)"
  by (induction a) (simp_all add: lower_def ishex_lower_char)

lemma same_case_same_digits: "lower a = lower b \<Longrightarrow> same_digits a b"
  by (simp add: same_digits_def lower_filter_ishex)

lemma lower_slice: "lower (slice i j x) = slice i j (lower x)"
  by (simp add: lower_def slice_def take_map drop_map)

lemma lower_append: "lower (x @ y) = lower x @ lower y"
  by (simp add: lower_def)

lemma lower_Cons: "lower (c # x) = lower_char c # lower x"
  by (simp add: lower_def)

lemma huawei_needle_cong:
  "same_digits a b \<Longrightarrow> lower (mac_to_huawei_format a) = lower (mac_to_huawei_format b)"
  by (simp add: mac_to_huawei_format_def Let_def lower_append lower_Cons lower_slice
      same_digits_def)

lemma handle_huawei_device_cong:
  assumes "same_digits a b"
  shows "handle_huawei_device e conn hostname ip a timeout s =
         handle_huawei_device e conn hostname ip b timeout s"
  unfolding handle_huawei_device_def huawei_needle_cong [OF assms] ..

lemma handle_alcatel_device_cong:
  assumes "lower a = lower b"
  shows "handle_alcatel_device e conn hostname ip a timeout s =
         handle_alcatel_device e conn hostname ip b timeout s"
  unfolding handle_alcatel_device_def assms ..

lemma handle_device_cong:
  assumes "lower a = lower b"
  shows "handle_device e device_info a timeout s = handle_device e device_info b timeout s"
proof -
  have body: "try_body e dev vendor ip a timeout s = try_body e dev vendor ip b timeout s"
    for dev vendor ip
    unfolding try_body_def
      handle_alcatel_device_cong [OF assms]
      handle_huawei_device_cong [OF same_case_same_digits [OF assms]] ..
  show ?thesis
    unfolding handle_device_def body ..
qed

lemma hyphen_target:
  "lower ''aa-bb-cc-dd-ee-ff'' = ''aa-bb-cc-dd-ee-ff''"
  "same_digits ''aa:bb:cc:dd:ee:ff'' ''aa-bb-cc-dd-ee-ff''"
  "scan_target ''AA-BB-CC-DD-EE-FF'' = ''aa-bb-cc-dd-ee-ff''"
  by (simp_all add: same_digits_def scan_target_def ishex_def texts)

text \<open>
  C3 says that two targets with the same hexadecimal digits, whatever their case and
  separators, give the same match decision on both vendors, the target being held as
  bare lower-case digits. \<open>main\<close> keeps the separators, and the Alcatel handler looks
  for the target with them: on an output row written with colons, the target with
  colons is found and the same target with hyphens is not.
\<close>

theorem alcatel_target_separators_matter:
  "same_digits ''aa:bb:cc:dd:ee:ff'' ''aa-bb-cc-dd-ee-ff'' \<and>
   scan_target ''AA-BB-CC-DD-EE-FF'' = ''aa-bb-cc-dd-ee-ff'' \<and>
   handle_alcatel_device
     (quiet_env (session_replying
        ''100  AA:BB:CC:DD:EE:FF sap:lag-1:100 L/300 01/02/24 10:00:00''))
     (session_replying ''100  AA:BB:CC:DD:EE:FF sap:lag-1:100 L/300 01/02/24 10:00:00'')
     ''sw1'' ''10.0.0.2'' ''aa:bb:cc:dd:ee:ff'' 1 scan_start =
   (Inr (Some \<lparr>rec_mac = ''AA:BB:CC:DD:EE:FF'', rec_interface = ''lag-1:100'',
                rec_ip = ''10.0.0.2'', rec_hostname = ''sw1'',
                rec_attribute1 = ''Service=100'',
                rec_attribute2 = ''LastSeen=01/02/24 10:00:00''\<rparr>),
    scan_start\<lparr>clock := 1, mac_found_event := True\<rparr>,
    [SendCommand ''environment no more'',
     SendCommandTiming ''show service fdb-mac | match aa:bb:cc:dd:ee:ff''
       (Some ''100  AA:BB:CC:DD:EE:FF sap:lag-1:100 L/300 01/02/24 10:00:00''),
     SetEvent]) \<and>
   handle_alcatel_device
     (quiet_env (session_replying
        ''100  AA:BB:CC:DD:EE:FF sap:lag-1:100 L/300 01/02/24 10:00:00''))
     (session_replying ''100  AA:BB:CC:DD:EE:FF sap:lag-1:100 L/300 01/02/24 10:00:00'')
     ''sw1'' ''10.0.0.2'' ''aa-bb-cc-dd-ee-ff'' 1 scan_start =
   (Inr None, scan_start\<lparr>clock := 3\<rparr>,
    [SendCommand ''environment no more'',
     SendCommandTiming ''show service fdb-mac | match aa-bb-cc-dd-ee-ff''
       (Some ''100  AA:BB:CC:DD:EE:FF sap:lag-1:100 L/300 01/02/24 10:00:00''),
     Sleep 2])"
  using lag_row_parsed lag_row_seen hyphen_target
  by (simp add: handler_steps target_lower)

text \<open>
  C3, as the code has it. The comparison is case-insensitive for both vendors: two
  targets that differ only in letter case give the same poller result on every device
  line. It is separator-insensitive on Huawei devices, whose handler reduces the target
  to its hexadecimal digits. \<open>main\<close> holds the target lower-cased, separators kept.
\<close>

theorem target_comparison:
  "(lower a = lower b \<longrightarrow>
      handle_device e device_info a timeout s = handle_device e device_info b timeout s) \<and>
   (same_digits a b \<longrightarrow>
      handle_huawei_device e conn hostname ip a timeout s =
      handle_huawei_device e conn hostname ip b timeout s) \<and>
   scan_target arg = lower arg"
  using handle_device_cong [of a b] handle_huawei_device_cong [of a b]
  by (simp add: scan_target_def)

theorem target_comparison_witness:
  "lower ''AA:BB:CC:DD:EE:FF'' = lower ''aa:bb:cc:dd:ee:ff'' \<and>
   handle_device
     (quiet_env (session_replying
        ''100  AA:BB:CC:DD:EE:FF sap:lag-1:100 L/300 01/02/24 10:00:00''))
     ''10.0.0.2,alcatel_aos'' ''AA:BB:CC:DD:EE:FF'' 60 scan_start =
   handle_device
     (quiet_env (session_replying
        ''100  AA:BB:CC:DD:EE:FF sap:lag-1:100 L/300 01/02/24 10:00:00''))
     ''10.0.0.2,alcatel_aos'' ''aa:bb:cc:dd:ee:ff'' 60 scan_start \<and>
   same_digits ''0A:BC:12:34:56:78'' ''0abc.1234.5678'' \<and>
   handle_huawei_device
     (quiet_env (session_replying ''0abc-1234-5678   10   GE0/0/1   dynamic''))
     (session_replying ''0abc-1234-5678   10   GE0/0/1   dynamic'')
     ''sw1'' ''10.0.0.1'' ''0abc.1234.5678'' 60 scan_start =
   (Inr (Some \<lparr>rec_mac = ''0A:BC:12:34:56:78'', rec_interface = ''GE0/0/1'',
                rec_ip = ''10.0.0.1'', rec_hostname = ''sw1'',
                rec_attribute1 = ''VLAN/VSI=10'', rec_attribute2 = ''Type=dynamic''\<rparr>),
    scan_start\<lparr>clock := 1, mac_found_event := True\<rparr>,
    [SendCommand ''screen-length 0 temporary'',
     SendCommandTiming ''display mac-address | include 0abc-1234-5678''
       (Some ''0abc-1234-5678   10   GE0/0/1   dynamic''),
     SetEvent])"
proof -
  let ?lag = "''100  AA:BB:CC:DD:EE:FF sap:lag-1:100 L/300 01/02/24 10:00:00''"
  let ?ge = "''0abc-1234-5678   10   GE0/0/1   dynamic''"
  have same_case: "lower ''AA:BB:CC:DD:EE:FF'' = lower ''aa:bb:cc:dd:ee:ff''"
    by (simp add: texts)
  have dots: "same_digits ''0A:BC:12:34:56:78'' ''0abc.1234.5678''"
    by (simp add: same_digits_def ishex_def texts)
  have huawei: "handle_huawei_device (quiet_env (session_replying ?ge))
      (session_replying ?ge) ''sw1'' ''10.0.0.1'' ''0A:BC:12:34:56:78'' 60 scan_start =
    (Inr (Some \<lparr>rec_mac = ''0A:BC:12:34:56:78'', rec_interface = ''GE0/0/1'',
                rec_ip = ''10.0.0.1'', rec_hostname = ''sw1'',
                rec_attribute1 = ''VLAN/VSI=10'', rec_attribute2 = ''Type=dynamic''\<rparr>),
     scan_start\<lparr>clock := 1, mac_found_event := True\<rparr>,
     [SendCommand ''screen-length 0 temporary'',
      SendCommandTiming ''display mac-address | include 0abc-1234-5678'' (Some ?ge),
      SetEvent])"
    using huawei_row_parsed huawei_row_seen by (simp add: handler_steps)
  note case_free = target_comparison
    [where a = "''AA:BB:CC:DD:EE:FF''" and b = "''aa:bb:cc:dd:ee:ff''"
       and e = "quiet_env (session_replying ?lag)"
       and device_info = "''10.0.0.2,alcatel_aos''" and timeout = 60 and s = scan_start]
  note digits = target_comparison
    [where a = "''0A:BC:12:34:56:78''" and b = "''0abc.1234.5678''"
       and e = "quiet_env (session_replying ?ge)" and conn = "session_replying ?ge"
       and hostname = "''sw1''" and ip = "''10.0.0.1''" and timeout = 60
       and s = scan_start]
  from case_free same_case have "handle_device (quiet_env (session_replying ?lag))
      ''10.0.0.2,alcatel_aos'' ''AA:BB:CC:DD:EE:FF'' 60 scan_start =
    handle_device (quiet_env (session_replying ?lag))
      ''10.0.0.2,alcatel_aos'' ''aa:bb:cc:dd:ee:ff'' 60 scan_start"
    by blast
  moreover from digits dots huawei have "handle_huawei_device
      (quiet_env (session_replying ?ge)) (session_replying ?ge) ''sw1'' ''10.0.0.1''
      ''0abc.1234.5678'' 60 scan_start =
    (Inr (Some \<lparr>rec_mac = ''0A:BC:12:34:56:78'', rec_interface = ''GE0/0/1'',
                rec_ip = ''10.0.0.1'', rec_hostname = ''sw1'',
                rec_attribute1 = ''VLAN/VSI=10'', rec_attribute2 = ''Type=dynamic''\<rparr>),
     scan_start\<lparr>clock := 1, mac_found_event := True\<rparr>,
     [SendCommand ''screen-length 0 temporary'',
      SendCommandTiming ''display mac-address | include 0abc-1234-5678'' (Some ?ge),
      SetEvent])"
    by metis
  ultimately show ?thesis using same_case dots by blast
qed

section \<open>What a match looks like\<close>

text \<open>What a match of each construct looks like.\<close>

lemma greedy_same: "(u, t) \<in> set (greedy p s) \<Longrightarrow> s = u @ t \<and> list_all p u"
  by (induction s arbitrary: u) (auto split: if_splits)

lemma rmatch_In:
  "(g', u, t) \<in> set (rmatch ic (In cs) g s) \<Longrightarrow>
   g' = g \<and> (\<exists>c. s = c # t \<and> u = [c] \<and> in_set ic cs c)"
  by (cases s) (auto split: if_splits)

lemma rmatch_Plus:
  "(g', u, t) \<in> set (rmatch ic (Plus cs) g s) \<Longrightarrow> g' = g \<and> s = u @ t"
  by (auto dest: greedy_same)

lemma rmatch_Seq:
  "(g', u, t) \<in> set (rmatch ic (Seq a b) g s) \<Longrightarrow>
   \<exists>g1 u1 t1 u2. (g1, u1, t1) \<in> set (rmatch ic a g s) \<and>
     (g', u2, t) \<in> set (rmatch ic b g1 t1) \<and> u = u1 @ u2"
  by (auto simp: followed_by_def)

lemma rmatch_Times_Suc:
  "(g', u, t) \<in> set (rmatch ic (Times (Suc n) r) g s) \<Longrightarrow>
   \<exists>g1 u1 t1 u2. (g1, u1, t1) \<in> set (rmatch ic r g s) \<and>
     (g', u2, t) \<in> set (rmatch ic (Times n r) g1 t1) \<and> u = u1 @ u2"
  by (auto simp: followed_by_def)

lemma rmatch_Group:
  "(g', u, t) \<in> set (rmatch ic (Group n r) g s) \<Longrightarrow>
   \<exists>g1. (g1, u, t) \<in> set (rmatch ic r g s) \<and> g' = (n, u) # g1"
  by auto

lemma search_Some:
  "search ic r s = Some g \<Longrightarrow> \<exists>s' u t. (g, u, t) \<in> set (rmatch ic r [] s')"
proof (induction s)
  case Nil
  show ?case
  proof (cases "rmatch ic r [] []")
    case Nil
    with Nil.prems show ?thesis by simp
  next
    case (Cons x xs)
    with Nil.prems have "x \<in> set (rmatch ic r [] [])" and "g = fst x" by auto
    then have "(g, fst (snd x), snd (snd x)) \<in> set (rmatch ic r [] [])" by simp
    then show ?thesis by blast
  qed
next
  case (Cons c s)
  show ?case
  proof (cases "rmatch ic r [] (c # s)")
    case Nil
    with Cons show ?thesis by simp
  next
    case (Cons x xs)
    with Cons.prems have "x \<in> set (rmatch ic r [] (c # s))" and "g = fst x" by auto
    then have "(g, fst (snd x), snd (snd x)) \<in> set (rmatch ic r [] (c # s))" by simp
    then show ?thesis by blast
  qed
qed

text \<open>A match binds only the groups of its expression, on top of those bound before.\<close>

lemma rmatch_groups:
  "(g', u, t) \<in> set (rmatch ic r g s) \<Longrightarrow>
   \<exists>added. g' = added @ g \<and> set (map fst added) \<subseteq> set (names r)"
proof (induction ic r g s arbitrary: g' u t rule: rmatch.induct)
  case (1 ic g s)
  then show ?case by simp
next
  case (2 ic cs g s)
  then show ?case by (auto dest: rmatch_In)
next
  case (3 ic a b g s)
  from rmatch_Seq [OF "3.prems"] obtain g1 u1 t1 u2 where
    a: "(g1, u1, t1) \<in> set (rmatch ic a g s)" and b: "(g', u2, t) \<in> set (rmatch ic b g1 t1)"
    by blast
  from "3.IH"(2) [OF a b] obtain ad2 where "g' = ad2 @ g1" "set (map fst ad2) \<subseteq> set (names b)"
    by blast
  moreover from "3.IH"(1) [OF a] obtain ad1 where "g1 = ad1 @ g"
    "set (map fst ad1) \<subseteq> set (names a)"
    by blast
  ultimately have "g' = (ad2 @ ad1) @ g \<and> set (map fst (ad2 @ ad1)) \<subseteq> set (names (Seq a b))"
    by auto
  then show ?case by blast
next
  case (4 ic r g s)
  then show ?case by simp
next
  case (5 ic n r g s)
  from rmatch_Times_Suc [OF "5.prems"] obtain g1 u1 t1 u2 where
    a: "(g1, u1, t1) \<in> set (rmatch ic r g s)"
    and b: "(g', u2, t) \<in> set (rmatch ic (Times n r) g1 t1)"
    by blast
  from "5.IH"(2) [OF a b] obtain ad2 where "g' = ad2 @ g1"
    "set (map fst ad2) \<subseteq> set (names (Times n r))"
    by blast
  moreover from "5.IH"(1) [OF a] obtain ad1 where "g1 = ad1 @ g"
    "set (map fst ad1) \<subseteq> set (names r)"
    by blast
  ultimately have "g' = (ad2 @ ad1) @ g \<and>
      set (map fst (ad2 @ ad1)) \<subseteq> set (names (Times (Suc n) r))"
    by auto
  then show ?case by blast
next
  case (6 ic cs g s)
  then show ?case by (auto dest: greedy_same)
next
  case (7 ic name r g s)
  from rmatch_Group [OF "7.prems"] obtain g1 where
    a: "(g1, u, t) \<in> set (rmatch ic r g s)" and "g' = (name, u) # g1"
    by blast
  moreover from "7.IH" [OF a] obtain ad where "g1 = ad @ g" "set (map fst ad) \<subseteq> set (names r)"
    by blast
  ultimately have "g' = ((name, u) # ad) @ g \<and>
      set (map fst ((name, u) # ad)) \<subseteq> set (names (Group name r))"
    by auto
  then show ?case by blast
qed

section \<open>Hexadecimal digits and repeats\<close>

lemma rmatch_Times_In:
  "(g', u, t) \<in> set (rmatch ic (Times n (In cs)) g s) \<Longrightarrow>
   g' = g \<and> length u = n \<and> list_all (in_set ic cs) u"
proof (induction n arbitrary: g s u)
  case 0
  then show ?case by simp
next
  case (Suc n)
  from rmatch_Times_Suc [OF Suc.prems] obtain g1 u1 t1 u2 where
    a: "(g1, u1, t1) \<in> set (rmatch ic (In cs) g s)"
    and b: "(g', u2, t) \<in> set (rmatch ic (Times n (In cs)) g1 t1)" and u: "u = u1 @ u2"
    by blast
  from rmatch_In [OF a] Suc.IH [OF b] u show ?case by auto
qed

lemma rmatch_Times_all:
  assumes each: "\<And>g s g' u t. (g', u, t) \<in> set (rmatch ic r g s) \<Longrightarrow> Q u"
  shows "(g', u, t) \<in> set (rmatch ic (Times n r) g s) \<Longrightarrow>
         \<exists>us. length us = n \<and> list_all Q us \<and> u = concat us"
proof (induction n arbitrary: g s u)
  case 0
  then show ?case by simp
next
  case (Suc n)
  from rmatch_Times_Suc [OF Suc.prems] obtain g1 u1 t1 u2 where
    a: "(g1, u1, t1) \<in> set (rmatch ic r g s)"
    and b: "(g', u2, t) \<in> set (rmatch ic (Times n r) g1 t1)" and u: "u = u1 @ u2"
    by blast
  from Suc.IH [OF b] obtain us where "length us = n" "list_all Q us" "u2 = concat us"
    by blast
  with each [OF a] u have "length (u1 # us) = Suc n \<and> list_all Q (u1 # us) \<and>
      u = concat (u1 # us)"
    by simp
  then show ?case by blast
qed

lemma char_of_nat_eq: "n < 256 \<Longrightarrow> (char_of (n::nat) = c) = (n = of_char c)"
proof
  assume "n < 256" and "char_of n = c"
  then have "of_char (char_of n) = (of_char c :: nat)" by simp
  with \<open>n < 256\<close> show "n = of_char c" by simp
next
  assume "n = of_char c"
  then show "char_of n = c" by simp
qed

text \<open>A hexadecimal digit of either case, as the patterns accept it.\<close>

lemma hexdigit_upper:
  assumes "in_set True hexdigit c"
  shows "ishex (upper_char c)" and "upper_char c \<noteq> CHR '':''" and "upper_char c \<noteq> CHR ''-''"
    and "c \<noteq> CHR ''-''" and "upper_char (upper_char c) = upper_char c"
  using assms
  by (auto simp: hexdigit_def ishex_def in_set_def lower_char_def upper_char_def
      isupper_def islower_def ord_def char_of_nat_eq split: if_splits)

lemma seps_only:
  "in_set True [Lit CHR '':'', Lit CHR ''-''] c \<Longrightarrow> c = CHR '':'' \<or> c = CHR ''-''"
  "in_set True [Lit CHR ''-''] c \<Longrightarrow> c = CHR ''-''"
  by (auto simp: in_set_def lower_char_def upper_char_def isupper_def islower_def ord_def
      char_of_nat_eq split: if_splits)

lemma valid_standard_mac_explicit:
  assumes "list_all ishex [a, b, c, d, e, f, g, h, i, j, k, l]"
  shows "valid_standard_mac
    [a, b, CHR '':'', c, d, CHR '':'', e, f, CHR '':'', g, h, CHR '':'', i, j, CHR '':'', k, l]"
proof -
  from assms have "a \<noteq> CHR '':''" "b \<noteq> CHR '':''" "c \<noteq> CHR '':''" "d \<noteq> CHR '':''"
    "e \<noteq> CHR '':''" "f \<noteq> CHR '':''" "g \<noteq> CHR '':''" "h \<noteq> CHR '':''" "i \<noteq> CHR '':''"
    "j \<noteq> CHR '':''" "k \<noteq> CHR '':''" "l \<noteq> CHR '':''"
    using ishex_not_sep by simp_all
  with assms show ?thesis by (simp add: valid_standard_mac_def)
qed

section \<open>The MAC text of a row\<close>

lemma map_of_under:
  "k \<notin> set (map fst added) \<Longrightarrow> map_of (added @ (k, v) # g) k = Some v"
  by (induction added) auto

text \<open>The text of the \<^verbatim>\<open>mac\<close> group of the Alcatel pattern.\<close>

lemma alcatel_triple:
  assumes "(g', u, t) \<in> set (rmatch True
     (Group ''3'' (Seq (Times 2 (In hexdigit)) (In [Lit CHR '':'', Lit CHR ''-'']))) g s)"
  shows "\<exists>a b c. u = [a, b, c] \<and> in_set True hexdigit a \<and> in_set True hexdigit b \<and>
           (c = CHR '':'' \<or> c = CHR ''-'')"
proof -
  from rmatch_Group [OF assms] obtain g1 where
    "(g1, u, t) \<in> set (rmatch True (Seq (Times 2 (In hexdigit))
        (In [Lit CHR '':'', Lit CHR ''-''])) g s)"
    by blast
  from rmatch_Seq [OF this] obtain g2 u1 t1 u2 where
    pair: "(g2, u1, t1) \<in> set (rmatch True (Times 2 (In hexdigit)) g s)"
    and sep: "(g1, u2, t) \<in> set (rmatch True (In [Lit CHR '':'', Lit CHR ''-'']) g2 t1)"
    and u: "u = u1 @ u2"
    by blast
  from rmatch_Times_In [OF pair] obtain a b where "u1 = [a, b]"
    "in_set True hexdigit a" "in_set True hexdigit b"
    by (auto simp: eval_nat_numeral length_Suc_conv)
  moreover from rmatch_In [OF sep] obtain c where "u2 = [c]"
    "c = CHR '':'' \<or> c = CHR ''-''"
    using seps_only(1) by blast
  ultimately show ?thesis using u by simp
qed

lemma alcatel_mac_group:
  assumes "(g', u, t) \<in> set (rmatch True
     (Seq (Times 5 (Group ''3'' (Seq (Times 2 (In hexdigit))
                                   (In [Lit CHR '':'', Lit CHR ''-'']))))
          (Times 2 (In hexdigit))) g s)"
  shows "\<exists>a b s1 c d s2 e f s3 g h s4 i j s5 k l.
     u = [a, b, s1, c, d, s2, e, f, s3, g, h, s4, i, j, s5, k, l] \<and>
     list_all (in_set True hexdigit) [a, b, c, d, e, f, g, h, i, j, k, l] \<and>
     list_all (\<lambda>s. s = CHR '':'' \<or> s = CHR ''-'') [s1, s2, s3, s4, s5]"
proof -
  let ?triple = "\<lambda>u. \<exists>a b c. u = [a, b, c] \<and> in_set True hexdigit a \<and>
     in_set True hexdigit b \<and> (c = CHR '':'' \<or> c = CHR ''-'')"
  from rmatch_Seq [OF assms] obtain g1 u1 t1 u2 where
    five: "(g1, u1, t1) \<in> set (rmatch True
       (Times 5 (Group ''3'' (Seq (Times 2 (In hexdigit))
                                (In [Lit CHR '':'', Lit CHR ''-''])))) g s)"
    and last: "(g', u2, t) \<in> set (rmatch True (Times 2 (In hexdigit)) g1 t1)"
    and u: "u = u1 @ u2"
    by blast
  have "\<exists>us. length us = 5 \<and> list_all ?triple us \<and> u1 = concat us"
  proof (rule rmatch_Times_all)
    show "(g1, u1, t1) \<in> set (rmatch True
       (Times 5 (Group ''3'' (Seq (Times 2 (In hexdigit))
                                (In [Lit CHR '':'', Lit CHR ''-''])))) g s)"
      by (rule five)
    show "?triple u" if "(g', u, t) \<in> set (rmatch True
       (Group ''3'' (Seq (Times 2 (In hexdigit)) (In [Lit CHR '':'', Lit CHR ''-'']))) g s)"
      for g s g' u t
      using that by (rule alcatel_triple)
  qed
  then obtain us where "length us = 5" and all: "list_all ?triple us" and u1: "u1 = concat us"
    by blast
  then obtain p1 p2 p3 p4 p5 where us: "us = [p1, p2, p3, p4, p5]"
    by (auto simp: eval_nat_numeral length_Suc_conv)
  from all us obtain a b s1 where p1: "p1 = [a, b, s1]" "in_set True hexdigit a"
    "in_set True hexdigit b" "s1 = CHR '':'' \<or> s1 = CHR ''-''" by auto
  from all us obtain c d s2 where p2: "p2 = [c, d, s2]" "in_set True hexdigit c"
    "in_set True hexdigit d" "s2 = CHR '':'' \<or> s2 = CHR ''-''" by auto
  from all us obtain e f s3 where p3: "p3 = [e, f, s3]" "in_set True hexdigit e"
    "in_set True hexdigit f" "s3 = CHR '':'' \<or> s3 = CHR ''-''" by auto
  from all us obtain g h s4 where p4: "p4 = [g, h, s4]" "in_set True hexdigit g"
    "in_set True hexdigit h" "s4 = CHR '':'' \<or> s4 = CHR ''-''" by auto
  from all us obtain i j s5 where p5: "p5 = [i, j, s5]" "in_set True hexdigit i"
    "in_set True hexdigit j" "s5 = CHR '':'' \<or> s5 = CHR ''-''" by auto
  from rmatch_Times_In [OF last] obtain k l where kl: "u2 = [k, l]"
    "in_set True hexdigit k" "in_set True hexdigit l"
    by (auto simp: eval_nat_numeral length_Suc_conv)
  have "u = [a, b, s1, c, d, s2, e, f, s3, g, h, s4, i, j, s5, k, l]"
    using u u1 us p1(1) p2(1) p3(1) p4(1) p5(1) kl(1) by simp
  moreover have "list_all (in_set True hexdigit) [a, b, c, d, e, f, g, h, i, j, k, l]"
    using p1 p2 p3 p4 p5 kl by simp
  moreover have "list_all (\<lambda>s. s = CHR '':'' \<or> s = CHR ''-'') [s1, s2, s3, s4, s5]"
    using p1 p2 p3 p4 p5 by simp
  ultimately show ?thesis by blast
qed

lemma alcatel_mac_text:
  assumes "search True alcatel_pattern line = Some m"
  shows "\<exists>a b s1 c d s2 e f s3 g h s4 i j s5 k l.
     group m ''mac'' = [a, b, s1, c, d, s2, e, f, s3, g, h, s4, i, j, s5, k, l] \<and>
     list_all (in_set True hexdigit) [a, b, c, d, e, f, g, h, i, j, k, l] \<and>
     list_all (\<lambda>s. s = CHR '':'' \<or> s = CHR ''-'') [s1, s2, s3, s4, s5]"
proof -
  define mac where "mac =
    Seq (Times 5 (Group ''3'' (Seq (Times 2 (In hexdigit))
                                 (In [Lit CHR '':'', Lit CHR ''-'']))))
        (Times 2 (In hexdigit))"
  define rest where "rest = cat
     [Plus [Space],
      lit ''sap:'',
      Group ''interface'' (Plus [Word, Lit CHR ''-'', Lit CHR '':'']),
      Plus [Space],
      Group ''age'' (cat [In [Lit CHR ''L'', Lit CHR ''D''], lit ''/'', Plus [Digit]]),
      Plus [Space],
      Group ''timestamp''
        (cat [Times 2 (In [Digit]), lit ''/'', Times 2 (In [Digit]), lit ''/'',
              Times 2 (In [Digit]), Plus [Space],
              Times 2 (In [Digit]), lit '':'', Times 2 (In [Digit]), lit '':'',
              Times 2 (In [Digit])])]"
  have pattern: "alcatel_pattern =
      Seq (Group ''service'' (Plus [Digit])) (Seq (Plus [Space]) (Seq (Group ''mac'' mac) rest))"
    by (simp add: alcatel_pattern_def mac_def rest_def)
  have rest_names: "names rest = [''interface'', ''age'', ''timestamp'']"
    by (simp add: rest_def lit_def)
  from search_Some [OF assms] obtain s u t where
    "(m, u, t) \<in> set (rmatch True alcatel_pattern [] s)"
    by blast
  then obtain g1 t1 u2 where
    "(m, u2, t) \<in> set (rmatch True (Seq (Plus [Space]) (Seq (Group ''mac'' mac) rest)) g1 t1)"
    unfolding pattern using rmatch_Seq by blast
  then obtain g2 t2 u3 where
    "(m, u3, t) \<in> set (rmatch True (Seq (Group ''mac'' mac) rest) g2 t2)"
    using rmatch_Seq by blast
  then obtain g3 um t3 u4 where
    grp: "(g3, um, t3) \<in> set (rmatch True (Group ''mac'' mac) g2 t2)"
    and rst: "(m, u4, t) \<in> set (rmatch True rest g3 t3)"
    using rmatch_Seq by blast
  from rmatch_Group [OF grp] obtain g4 where
    inner: "(g4, um, t3) \<in> set (rmatch True mac g2 t2)" and g3: "g3 = (''mac'', um) # g4"
    by blast
  from rmatch_groups [OF rst] obtain added where m: "m = added @ g3"
    and added: "set (map fst added) \<subseteq> set (names rest)"
    by blast
  from added rest_names have "''mac'' \<notin> set (map fst added)"
    by auto
  then have "map_of (added @ (''mac'', um) # g4) ''mac'' = Some um"
    by (rule map_of_under)
  with m g3 have "map_of m ''mac'' = Some um"
    by simp
  then have "group m ''mac'' = um"
    by (simp add: group_def)
  with alcatel_mac_group [OF inner [unfolded mac_def]] show ?thesis by simp
qed

lemma alcatel_mac_normal:
  assumes "search True alcatel_pattern line = Some m"
  shows "valid_standard_mac (upper (replace CHR ''-'' '':'' (group m ''mac''))) \<and>
         upper (upper (replace CHR ''-'' '':'' (group m ''mac''))) =
           upper (replace CHR ''-'' '':'' (group m ''mac''))"
proof -
  from alcatel_mac_text [OF assms] obtain a b s1 c d s2 e f s3 g h s4 i j s5 k l where
    shape: "group m ''mac'' = [a, b, s1, c, d, s2, e, f, s3, g, h, s4, i, j, s5, k, l]"
    and hex: "list_all (in_set True hexdigit) [a, b, c, d, e, f, g, h, i, j, k, l]"
    and seps: "list_all (\<lambda>s. s = CHR '':'' \<or> s = CHR ''-'') [s1, s2, s3, s4, s5]"
    by blast
  have sep: "(if s = CHR ''-'' then '':'' else [s]) = '':''"
    if "s = CHR '':'' \<or> s = CHR ''-''" for s
    using that by auto
  have dig: "(if x = CHR ''-'' then '':'' else [x]) = [x]" if "in_set True hexdigit x" for x
    using hexdigit_upper(4) [OF that] by simp
  have "replace CHR ''-'' '':'' (group m ''mac'') =
      [a, b, CHR '':'', c, d, CHR '':'', e, f, CHR '':'', g, h, CHR '':'', i, j, CHR '':'', k, l]"
    using hex seps by (simp add: shape replace_def sep dig)
  then have norm: "upper (replace CHR ''-'' '':'' (group m ''mac'')) =
      [upper_char a, upper_char b, CHR '':'', upper_char c, upper_char d, CHR '':'',
       upper_char e, upper_char f, CHR '':'', upper_char g, upper_char h, CHR '':'',
       upper_char i, upper_char j, CHR '':'', upper_char k, upper_char l]"
    by (simp add: upper_def upper_colon)
  have "list_all ishex [upper_char a, upper_char b, upper_char c, upper_char d, upper_char e,
      upper_char f, upper_char g, upper_char h, upper_char i, upper_char j, upper_char k,
      upper_char l]"
    using hex by (simp add: hexdigit_upper(1))
  then have "valid_standard_mac (upper (replace CHR ''-'' '':'' (group m ''mac'')))"
    unfolding norm by (rule valid_standard_mac_explicit)
  moreover have "upper (upper (replace CHR ''-'' '':'' (group m ''mac''))) =
      upper (replace CHR ''-'' '':'' (group m ''mac''))"
    unfolding norm using hex by (simp add: upper_def upper_colon hexdigit_upper(5))
  ultimately show ?thesis by simp
qed

text \<open>The text of the \<^verbatim>\<open>mac\<close> group of the Huawei pattern.\<close>

lemma four_digits:
  assumes "(g', u, t) \<in> set (rmatch True (Times 4 (In hexdigit)) g s)"
  shows "g' = g \<and> (\<exists>a b c d. u = [a, b, c, d] \<and> list_all (in_set True hexdigit) [a, b, c, d])"
  using rmatch_Times_In [OF assms] by (auto simp: eval_nat_numeral length_Suc_conv)

lemma hyphen_only:
  assumes "(g', u, t) \<in> set (rmatch True (In [Lit CHR ''-'']) g s)"
  shows "g' = g \<and> u = ''-''"
  using rmatch_In [OF assms] seps_only(2) by auto

lemma huawei_mac_text:
  assumes "search True huawei_pattern line = Some m"
  shows "\<exists>a b c d e f g h i j k l.
     group m ''mac'' = [a, b, c, d, CHR ''-'', e, f, g, h, CHR ''-'', i, j, k, l] \<and>
     list_all (in_set True hexdigit) [a, b, c, d, e, f, g, h, i, j, k, l]"
proof -
  define rest where "rest = cat
     [Plus [Space], Group ''vlan'' (Plus [NotSpace]), Plus [Space],
      Group ''interface'' (Plus [NotSpace]), Plus [Space], Group ''type'' (Plus [NotSpace])]"
  let ?four = "Times 4 (In hexdigit)"
  let ?hyphen = "In [Lit CHR ''-'']"
  have pattern: "huawei_pattern =
      Seq (Group ''mac'' (Seq ?four (Seq ?hyphen (Seq ?four (Seq ?hyphen ?four))))) rest"
    by (simp add: huawei_pattern_def rest_def lit_def)
  have rest_names: "names rest = [''vlan'', ''interface'', ''type'']"
    by (simp add: rest_def)
  from search_Some [OF assms] obtain s u t where
    "(m, u, t) \<in> set (rmatch True huawei_pattern [] s)"
    by blast
  then obtain g3 um t3 u4 where
    grp: "(g3, um, t3) \<in> set (rmatch True
       (Group ''mac'' (Seq ?four (Seq ?hyphen (Seq ?four (Seq ?hyphen ?four))))) [] s)"
    and rst: "(m, u4, t) \<in> set (rmatch True rest g3 t3)"
    unfolding pattern using rmatch_Seq by blast
  from rmatch_Group [OF grp] obtain g4 where
    inner: "(g4, um, t3) \<in> set (rmatch True
       (Seq ?four (Seq ?hyphen (Seq ?four (Seq ?hyphen ?four)))) [] s)"
    and g3: "g3 = (''mac'', um) # g4"
    by blast
  from rmatch_groups [OF rst] obtain added where m: "m = added @ g3"
    and added: "set (map fst added) \<subseteq> set (names rest)"
    by blast
  from added rest_names have "''mac'' \<notin> set (map fst added)"
    by auto
  then have "map_of (added @ (''mac'', um) # g4) ''mac'' = Some um"
    by (rule map_of_under)
  with m g3 have mac: "group m ''mac'' = um"
    by (simp add: group_def)
  from rmatch_Seq [OF inner] obtain ga q1 ta r1 where
    q1: "(ga, q1, ta) \<in> set (rmatch True ?four [] s)"
    and r1: "(g4, r1, t3) \<in> set (rmatch True
       (Seq ?hyphen (Seq ?four (Seq ?hyphen ?four))) ga ta)" and um: "um = q1 @ r1"
    by blast
  from rmatch_Seq [OF r1] obtain gb h1 tb r2 where
    h1: "(gb, h1, tb) \<in> set (rmatch True ?hyphen ga ta)"
    and r2: "(g4, r2, t3) \<in> set (rmatch True (Seq ?four (Seq ?hyphen ?four)) gb tb)"
    and r1': "r1 = h1 @ r2"
    by blast
  from rmatch_Seq [OF r2] obtain gc q2 tc r3 where
    q2: "(gc, q2, tc) \<in> set (rmatch True ?four gb tb)"
    and r3: "(g4, r3, t3) \<in> set (rmatch True (Seq ?hyphen ?four) gc tc)"
    and r2': "r2 = q2 @ r3"
    by blast
  from rmatch_Seq [OF r3] obtain gd h2 td q3 where
    h2: "(gd, h2, td) \<in> set (rmatch True ?hyphen gc tc)"
    and q3: "(g4, q3, t3) \<in> set (rmatch True ?four gd td)"
    and r3': "r3 = h2 @ q3"
    by blast
  from four_digits [OF q1] obtain a b c d where "q1 = [a, b, c, d]"
    "list_all (in_set True hexdigit) [a, b, c, d]" by blast
  moreover from four_digits [OF q2] obtain e f g h where "q2 = [e, f, g, h]"
    "list_all (in_set True hexdigit) [e, f, g, h]" by blast
  moreover from four_digits [OF q3] obtain i j k l where "q3 = [i, j, k, l]"
    "list_all (in_set True hexdigit) [i, j, k, l]" by blast
  moreover from hyphen_only [OF h1] hyphen_only [OF h2] have "h1 = ''-''" "h2 = ''-''"
    by simp_all
  ultimately have "group m ''mac'' = [a, b, c, d, CHR ''-'', e, f, g, h, CHR ''-'', i, j, k, l] \<and>
     list_all (in_set True hexdigit) [a, b, c, d, e, f, g, h, i, j, k, l]"
    using mac um r1' r2' r3' by simp
  then show ?thesis by blast
qed

lemma upper_hyphen: "upper_char CHR ''-'' = CHR ''-''"
  by (simp add: upper_char_def islower_def ord_def)

lemma huawei_mac_normal:
  assumes "search True huawei_pattern line = Some m"
  shows "valid_standard_mac (huawei_mac_to_standard (upper (group m ''mac''))) \<and>
         upper (huawei_mac_to_standard (upper (group m ''mac''))) =
           huawei_mac_to_standard (upper (group m ''mac''))"
proof -
  from huawei_mac_text [OF assms] obtain a b c d e f g h i j k l where
    shape: "group m ''mac'' = [a, b, c, d, CHR ''-'', e, f, g, h, CHR ''-'', i, j, k, l]"
    and hex: "list_all (in_set True hexdigit) [a, b, c, d, e, f, g, h, i, j, k, l]"
    by blast
  have norm: "huawei_mac_to_standard (upper (group m ''mac'')) =
      [upper_char a, upper_char b, CHR '':'', upper_char c, upper_char d, CHR '':'',
       upper_char e, upper_char f, CHR '':'', upper_char g, upper_char h, CHR '':'',
       upper_char i, upper_char j, CHR '':'', upper_char k, upper_char l]"
    using hex
    by (simp add: shape huawei_mac_to_standard_def upper_def lower_def replace_def slice_def
        upper_hyphen upper_colon hexdigit_upper(3) hexdigit_upper(5) upper_lower_char)
  have "list_all ishex [upper_char a, upper_char b, upper_char c, upper_char d, upper_char e,
      upper_char f, upper_char g, upper_char h, upper_char i, upper_char j, upper_char k,
      upper_char l]"
    using hex by (simp add: hexdigit_upper(1))
  then have "valid_standard_mac (huawei_mac_to_standard (upper (group m ''mac'')))"
    unfolding norm by (rule valid_standard_mac_explicit)
  moreover have "upper (huawei_mac_to_standard (upper (group m ''mac''))) =
      huawei_mac_to_standard (upper (group m ''mac''))"
    unfolding norm using hex by (simp add: upper_def upper_colon hexdigit_upper(5))
  ultimately show ?thesis by simp
qed

section \<open>The row a record is built from\<close>

text \<open>
  C4, as the code has it. When a handler returns a record, the session has answered
  the polling command with a text that contains the target (as the handler looks for
  it), and the record is built from the first line of that text on which the row
  pattern is found: its MAC field is that line's MAC, put in upper case with colons.
\<close>

theorem found_record_is_first_pattern_row:
  "(handle_alcatel_device e conn hostname ip search_mac timeout s = (Inr (Some m), s', evs) \<longrightarrow>
      (\<exists>t raw d before line after g.
         send_command_timing conn t (''show service fdb-mac | match '' @ lower search_mac) =
           Inr (raw, d) \<and>
         contains (lower search_mac) (lower (strip raw)) \<and>
         splitlines (strip raw) = before @ line # after \<and>
         list_all (\<lambda>l. search True alcatel_pattern l = None) before \<and>
         search True alcatel_pattern line = Some g \<and>
         rec_mac m = upper (replace CHR ''-'' '':'' (group g ''mac'')) \<and>
         valid_standard_mac (rec_mac m) \<and> upper (rec_mac m) = rec_mac m)) \<and>
   (handle_huawei_device e conn hostname ip search_mac timeout s = (Inr (Some m), s', evs) \<longrightarrow>
      (\<exists>t raw d before line after g.
         send_command_timing conn t
           (''display mac-address | include '' @ lower (mac_to_huawei_format search_mac)) =
           Inr (raw, d) \<and>
         contains (lower (mac_to_huawei_format search_mac)) (lower (strip raw)) \<and>
         splitlines (strip raw) = before @ line # after \<and>
         list_all (\<lambda>l. search True huawei_pattern l = None) before \<and>
         search True huawei_pattern line = Some g \<and>
         rec_mac m = huawei_mac_to_standard (upper (group g ''mac'')) \<and>
         valid_standard_mac (rec_mac m) \<and> upper (rec_mac m) = rec_mac m))"
proof (intro conjI impI)
  assume "handle_alcatel_device e conn hostname ip search_mac timeout s = (Inr (Some m), s', evs)"
  then obtain t raw d where
    "send_command_timing conn t (''show service fdb-mac | match '' @ lower search_mac) =
       Inr (raw, d)"
    and "contains (lower search_mac) (lower (strip raw))"
    and rows: "alcatel_rows (splitlines (strip raw)) ip hostname = Some m"
    using alcatel_found by blast
  moreover from alcatel_rows_first [OF rows] obtain before line after g where
    "splitlines (strip raw) = before @ line # after"
    "list_all (\<lambda>l. search True alcatel_pattern l = None) before"
    "search True alcatel_pattern line = Some g"
    "rec_mac m = upper (replace CHR ''-'' '':'' (group g ''mac''))"
    by blast
  moreover from this(3,4) alcatel_mac_normal
  have "valid_standard_mac (rec_mac m) \<and> upper (rec_mac m) = rec_mac m"
    by simp
  ultimately show "\<exists>t raw d before line after g.
         send_command_timing conn t (''show service fdb-mac | match '' @ lower search_mac) =
           Inr (raw, d) \<and>
         contains (lower search_mac) (lower (strip raw)) \<and>
         splitlines (strip raw) = before @ line # after \<and>
         list_all (\<lambda>l. search True alcatel_pattern l = None) before \<and>
         search True alcatel_pattern line = Some g \<and>
         rec_mac m = upper (replace CHR ''-'' '':'' (group g ''mac'')) \<and>
         valid_standard_mac (rec_mac m) \<and> upper (rec_mac m) = rec_mac m"
    by blast
next
  assume "handle_huawei_device e conn hostname ip search_mac timeout s = (Inr (Some m), s', evs)"
  then obtain t raw d where
    "send_command_timing conn t
       (''display mac-address | include '' @ lower (mac_to_huawei_format search_mac)) =
       Inr (raw, d)"
    and "contains (lower (mac_to_huawei_format search_mac)) (lower (strip raw))"
    and rows: "huawei_rows (splitlines (strip raw)) ip hostname = Some m"
    using huawei_found by blast
  moreover from huawei_rows_first [OF rows] obtain before line after g where
    "splitlines (strip raw) = before @ line # after"
    "list_all (\<lambda>l. search True huawei_pattern l = None) before"
    "search True huawei_pattern line = Some g"
    "rec_mac m = huawei_mac_to_standard (upper (group g ''mac''))"
    by blast
  moreover from this(3,4) huawei_mac_normal
  have "valid_standard_mac (rec_mac m) \<and> upper (rec_mac m) = rec_mac m"
    by simp
  ultimately show "\<exists>t raw d before line after g.
         send_command_timing conn t
           (''display mac-address | include '' @ lower (mac_to_huawei_format search_mac)) =
           Inr (raw, d) \<and>
         contains (lower (mac_to_huawei_format search_mac)) (lower (strip raw)) \<and>
         splitlines (strip raw) = before @ line # after \<and>
         list_all (\<lambda>l. search True huawei_pattern l = None) before \<and>
         search True huawei_pattern line = Some g \<and>
         rec_mac m = huawei_mac_to_standard (upper (group g ''mac'')) \<and>
         valid_standard_mac (rec_mac m) \<and> upper (rec_mac m) = rec_mac m"
    by blast
qed

theorem found_record_is_first_pattern_row_witness:
  "handle_alcatel_device
     (quiet_env (session_replying
        ''100  AA:BB:CC:DD:EE:FF sap:lag-1:100 L/300 01/02/24 10:00:00''))
     (session_replying ''100  AA:BB:CC:DD:EE:FF sap:lag-1:100 L/300 01/02/24 10:00:00'')
     ''sw1'' ''10.0.0.2'' ''aa:bb:cc:dd:ee:ff'' 60 scan_start =
   (Inr (Some \<lparr>rec_mac = ''AA:BB:CC:DD:EE:FF'', rec_interface = ''lag-1:100'',
                rec_ip = ''10.0.0.2'', rec_hostname = ''sw1'',
                rec_attribute1 = ''Service=100'',
                rec_attribute2 = ''LastSeen=01/02/24 10:00:00''\<rparr>),
    scan_start\<lparr>clock := 1, mac_found_event := True\<rparr>,
    [SendCommand ''environment no more'',
     SendCommandTiming ''show service fdb-mac | match aa:bb:cc:dd:ee:ff''
       (Some ''100  AA:BB:CC:DD:EE:FF sap:lag-1:100 L/300 01/02/24 10:00:00''),
     SetEvent]) \<and>
   handle_huawei_device
     (quiet_env (session_replying ''0abc-1234-5678   10   GE0/0/1   dynamic''))
     (session_replying ''0abc-1234-5678   10   GE0/0/1   dynamic'')
     ''sw1'' ''10.0.0.1'' ''0A:BC:12:34:56:78'' 60 scan_start =
   (Inr (Some \<lparr>rec_mac = ''0A:BC:12:34:56:78'', rec_interface = ''GE0/0/1'',
                rec_ip = ''10.0.0.1'', rec_hostname = ''sw1'',
                rec_attribute1 = ''VLAN/VSI=10'', rec_attribute2 = ''Type=dynamic''\<rparr>),
    scan_start\<lparr>clock := 1, mac_found_event := True\<rparr>,
    [SendCommand ''screen-length 0 temporary'',
     SendCommandTiming ''display mac-address | include 0abc-1234-5678''
       (Some ''0abc-1234-5678   10   GE0/0/1   dynamic''),
     SetEvent]) \<and>
   (\<exists>line g. search True alcatel_pattern line = Some g \<and>
      ''AA:BB:CC:DD:EE:FF'' = upper (replace CHR ''-'' '':'' (group g ''mac''))) \<and>
   (\<exists>line g. search True huawei_pattern line = Some g \<and>
      ''0A:BC:12:34:56:78'' = huawei_mac_to_standard (upper (group g ''mac''))) \<and>
   valid_standard_mac ''AA:BB:CC:DD:EE:FF'' \<and> valid_standard_mac ''0A:BC:12:34:56:78''"
proof -
  let ?lag = "''100  AA:BB:CC:DD:EE:FF sap:lag-1:100 L/300 01/02/24 10:00:00''"
  let ?ge = "''0abc-1234-5678   10   GE0/0/1   dynamic''"
  let ?hit = "\<lparr>rec_mac = ''AA:BB:CC:DD:EE:FF'', rec_interface = ''lag-1:100'',
                rec_ip = ''10.0.0.2'', rec_hostname = ''sw1'',
                rec_attribute1 = ''Service=100'',
                rec_attribute2 = ''LastSeen=01/02/24 10:00:00''\<rparr>"
  let ?hit2 = "\<lparr>rec_mac = ''0A:BC:12:34:56:78'', rec_interface = ''GE0/0/1'',
                rec_ip = ''10.0.0.1'', rec_hostname = ''sw1'',
                rec_attribute1 = ''VLAN/VSI=10'', rec_attribute2 = ''Type=dynamic''\<rparr>"
  have alcatel: "handle_alcatel_device (quiet_env (session_replying ?lag))
      (session_replying ?lag) ''sw1'' ''10.0.0.2'' ''aa:bb:cc:dd:ee:ff'' 60 scan_start =
    (Inr (Some ?hit), scan_start\<lparr>clock := 1, mac_found_event := True\<rparr>,
     [SendCommand ''environment no more'',
      SendCommandTiming ''show service fdb-mac | match aa:bb:cc:dd:ee:ff'' (Some ?lag),
      SetEvent])"
    using lag_row_parsed lag_row_seen by (simp add: handler_steps target_lower)
  have huawei: "handle_huawei_device (quiet_env (session_replying ?ge))
      (session_replying ?ge) ''sw1'' ''10.0.0.1'' ''0A:BC:12:34:56:78'' 60 scan_start =
    (Inr (Some ?hit2), scan_start\<lparr>clock := 1, mac_found_event := True\<rparr>,
     [SendCommand ''screen-length 0 temporary'',
      SendCommandTiming ''display mac-address | include 0abc-1234-5678'' (Some ?ge),
      SetEvent])"
    using huawei_row_parsed huawei_row_seen by (simp add: handler_steps)
  from found_record_is_first_pattern_row
    [where e = "quiet_env (session_replying ?lag)" and conn = "session_replying ?lag"
       and hostname = "''sw1''" and ip = "''10.0.0.2''"
       and search_mac = "''aa:bb:cc:dd:ee:ff''" and timeout = 60 and s = scan_start
       and m = ?hit and s' = "scan_start\<lparr>clock := 1, mac_found_event := True\<rparr>"
       and evs = "[SendCommand ''environment no more'',
         SendCommandTiming ''show service fdb-mac | match aa:bb:cc:dd:ee:ff'' (Some ?lag),
         SetEvent]"] alcatel
  have row: "(\<exists>line g. search True alcatel_pattern line = Some g \<and>
      ''AA:BB:CC:DD:EE:FF'' = upper (replace CHR ''-'' '':'' (group g ''mac''))) \<and>
      valid_standard_mac ''AA:BB:CC:DD:EE:FF''"
    by auto
  from found_record_is_first_pattern_row
    [where e = "quiet_env (session_replying ?ge)" and conn = "session_replying ?ge"
       and hostname = "''sw1''" and ip = "''10.0.0.1''"
       and search_mac = "''0A:BC:12:34:56:78''" and timeout = 60 and s = scan_start
       and m = ?hit2 and s' = "scan_start\<lparr>clock := 1, mac_found_event := True\<rparr>"
       and evs = "[SendCommand ''screen-length 0 temporary'',
         SendCommandTiming ''display mac-address | include 0abc-1234-5678'' (Some ?ge),
         SetEvent]"] huawei
  have row2: "(\<exists>line g. search True huawei_pattern line = Some g \<and>
      ''0A:BC:12:34:56:78'' = huawei_mac_to_standard (upper (group g ''mac''))) \<and>
      valid_standard_mac ''0A:BC:12:34:56:78''"
    by auto
  from alcatel huawei row row2 show ?thesis by blast
qed

section \<open>A found record that is lost\<close>


end
